theory Spec2Isabelle
  imports Main
begin

section \<open>The configuration tree\<close>

text \<open>
  The loader of \<^verbatim>\<open>conf-yaml-loader.c\<close> works on \<^verbatim>\<open>ConfNode\<close> objects that it reaches
  through pointers (\<^verbatim>\<open>parent\<close>, \<^verbatim>\<open>node\<close>, \<^verbatim>\<open>seq_node\<close>, \<^verbatim>\<open>n0\<close>), and several of them may point
  to the same object. The tree is therefore kept in an explicit store: an address is an
  index into the list of all node objects allocated so far, and the child queue of a node
  (\<^verbatim>\<open>TAILQ_HEAD head\<close>) is the list of the addresses of its children, first child first.
  A \<^verbatim>\<open>NULL\<close> string is \<open>None\<close>. The addresses the builder uses are the root it is given
  and the ones \<^verbatim>\<open>ConfNodeNew\<close> returns; an address outside the store stands for an invalid
  pointer (undefined behaviour in C), a write through it changes nothing here, and the
  theorems that depend on an address ask for it to be in the store.

  Allocation failures (\<^verbatim>\<open>calloc\<close>, \<^verbatim>\<open>strdup\<close>, \<^verbatim>\<open>yaml_parser_initialize\<close>) are not part of the
  model, and the release of memory is not represented: a removed node is a node that no
  child queue links any more.
\<close>

type_synonym addr = nat

record ConfNode =
  name :: "string option"
  val :: "string option"
  is_seq :: bool
  allow_override :: bool
  head :: "addr list"

type_synonym heap = "ConfNode list"

text \<open>Modelled from the spec: \<^verbatim>\<open>ConfNodeNew\<close> of the tree module (\<^verbatim>\<open>conf.c\<close> is not among
  the sources): "returns a fresh detached node with allow_override = false, is_seq = false,
  empty value, empty children". The fresh address is the next unused index.\<close>

definition ConfNodeNew :: "heap \<Rightarrow> addr \<times> heap" where
  "ConfNodeNew h =
     (length h,
      h @ [\<lparr>name = None, val = None, is_seq = False, allow_override = False, head = []\<rparr>])"

text \<open>Modelled from the spec: \<^verbatim>\<open>ConfNodeLookupChild\<close> of the tree module: "first child with
  matching name, or none".\<close>

definition ConfNodeLookupChild :: "heap \<Rightarrow> addr \<Rightarrow> string \<Rightarrow> addr option" where
  "ConfNodeLookupChild h parent nm =
     find (\<lambda>c. name (h ! c) = Some nm) (head (h ! parent))"

text \<open>Modelled from the spec: \<^verbatim>\<open>ConfNodeRemove\<close> of the tree module: "detaches and releases
  node and its subtree". The loader only removes a node that \<^verbatim>\<open>ConfNodeLookupChild\<close> has just
  found in the child queue of \<^verbatim>\<open>parent\<close>, so that queue is the one it is unlinked from.\<close>

definition ConfNodeRemove :: "heap \<Rightarrow> addr \<Rightarrow> addr \<Rightarrow> heap" where
  "ConfNodeRemove h parent n0 =
     h[parent := (h ! parent)\<lparr>head := removeAll n0 (head (h ! parent))\<rparr>]"

text \<open>\<^verbatim>\<open>TAILQ_INSERT_TAIL(&parent->head, c, next)\<close>.\<close>

definition TAILQ_INSERT_TAIL :: "heap \<Rightarrow> addr \<Rightarrow> addr \<Rightarrow> heap" where
  "TAILQ_INSERT_TAIL h parent c = h[parent := (h ! parent)\<lparr>head := head (h ! parent) @ [c]\<rparr>]"

text \<open>The three field assignments of the loader: \<^verbatim>\<open>a->name = s\<close>, \<^verbatim>\<open>a->val = strdup(s)\<close> and
  \<^verbatim>\<open>a->is_seq = 1\<close>.\<close>

definition set_name :: "heap \<Rightarrow> addr \<Rightarrow> string \<Rightarrow> heap" where
  "set_name h a s = h[a := (h ! a)\<lparr>name := Some s\<rparr>]"

definition set_val :: "heap \<Rightarrow> addr \<Rightarrow> string \<Rightarrow> heap" where
  "set_val h a s = h[a := (h ! a)\<lparr>val := Some s\<rparr>]"

definition set_is_seq :: "heap \<Rightarrow> addr \<Rightarrow> heap" where
  "set_is_seq h a = h[a := (h ! a)\<lparr>is_seq := True\<rparr>]"

section \<open>The event source\<close>

text \<open>
  The events of \<^verbatim>\<open>yaml.h\<close> (libyaml), with the data the loader reads from them: the
  version directive of a document start (\<open>None\<close> for a \<^verbatim>\<open>NULL\<close> directive, otherwise major
  and minor) and the text of a scalar.
\<close>

datatype yaml_event =
    YAML_NO_EVENT
  | YAML_STREAM_START_EVENT
  | YAML_STREAM_END_EVENT
  | YAML_DOCUMENT_START_EVENT "(int \<times> int) option"
  | YAML_DOCUMENT_END_EVENT
  | YAML_ALIAS_EVENT
  | YAML_SCALAR_EVENT string
  | YAML_SEQUENCE_START_EVENT
  | YAML_SEQUENCE_END_EVENT
  | YAML_MAPPING_START_EVENT
  | YAML_MAPPING_END_EVENT

text \<open>
  One call of \<^verbatim>\<open>yaml_parser_parse\<close> either delivers an event or fails (returns 0). The
  parser is the list of the results its next calls will give. The list is finite; when it
  is used up before the builder has returned, the model stops with \<open>OutOfEvents\<close> and
  says nothing about what the parser would deliver next.
\<close>

datatype parse_result = Parsed yaml_event | ParseFailed

type_synonym yaml_parser_t = "parse_result list"

datatype outcome = Returned int | OutOfEvents

section \<open>The tree builder\<close>

text \<open>\<^verbatim>\<open>snprintf(seq_node->name, DEFAULT_NAME_LEN, "%d", seq_idx)\<close>: the decimal digits of the
  counter. The counter starts at 0 and is only incremented; it is a natural number here
  (the C \<^verbatim>\<open>int\<close> has room for every count below \<open>2^31\<close>, and such a count fits the
  16 bytes of the buffer).\<close>

definition digit :: "nat \<Rightarrow> char" where
  "digit d = ''0123456789'' ! d"

fun decimal :: "nat \<Rightarrow> string" where
  "decimal n = (if n < 10 then [digit n] else decimal (n div 10) @ [digit (n mod 10)])"

declare decimal.simps [simp del]

text \<open>\<^verbatim>\<open>char *value = (char *)event.data.scalar.value\<close>: the loader reads the text of a
  scalar as a C string and never looks at \<^verbatim>\<open>event.data.scalar.length\<close>, so \<^verbatim>\<open>strdup\<close> and the
  lookup by name see the text up to its first NUL byte only. The strings in the store are
  the contents of C strings.\<close>

definition c_str :: "string \<Rightarrow> string" where
  "c_str s = takeWhile (\<lambda>c. c \<noteq> CHR 0x00) s"

datatype conf_state = CONF_KEY | CONF_VAL

text \<open>Lines 79 to 83: a scalar element of a sequence becomes a new child of \<^verbatim>\<open>parent\<close>.\<close>

definition seq_scalar :: "heap \<Rightarrow> addr \<Rightarrow> nat \<Rightarrow> string \<Rightarrow> heap" where
  "seq_scalar h parent seq_idx v =
     (let (seq_node, h1) = ConfNodeNew h;
          h2 = set_name h1 seq_node (decimal seq_idx);
          h3 = set_val h2 seq_node v
      in TAILQ_INSERT_TAIL h3 parent seq_node)"

text \<open>Lines 130 to 134: a mapping element of a sequence becomes a new child of \<^verbatim>\<open>node\<close>,
  flagged \<^verbatim>\<open>is_seq\<close>.\<close>

definition seq_mapping :: "heap \<Rightarrow> addr \<Rightarrow> nat \<Rightarrow> addr \<times> heap" where
  "seq_mapping h node seq_idx =
     (let (seq_node, h1) = ConfNodeNew h;
          h2 = set_is_seq h1 seq_node;
          h3 = set_name h2 seq_node (decimal seq_idx)
      in (seq_node, TAILQ_INSERT_TAIL h3 node seq_node))"

text \<open>Lines 101 to 108: the node of a mapping key, after the lookup has let the key pass.\<close>

definition key_node :: "heap \<Rightarrow> addr \<Rightarrow> string \<Rightarrow> addr \<times> heap" where
  "key_node h parent v =
     (let h1 = (if is_seq (h ! parent) \<and> val (h ! parent) = None then set_val h parent v else h);
          (node, h2) = ConfNodeNew h1;
          h3 = set_name h2 node v
      in (node, TAILQ_INSERT_TAIL h3 parent node))"

text \<open>
  \<^verbatim>\<open>ConfYamlParse\<close> is a loop around \<^verbatim>\<open>yaml_parser_parse\<close> that calls itself for nested
  sequences and mappings. \<open>ConfYamlParse_loop\<close> is the loop, from the point where the next
  event is fetched, with the local variables \<^verbatim>\<open>node\<close>, \<^verbatim>\<open>state\<close> and \<^verbatim>\<open>seq_idx\<close> as arguments;
  a recursive call \<^verbatim>\<open>ConfYamlParse(parser, p, s)\<close> is the loop started with \<^verbatim>\<open>node = p\<close>,
  \<^verbatim>\<open>state = 0\<close> and \<^verbatim>\<open>seq_idx = 0\<close>. The result is the return value, the parser as the call
  leaves it and the store.
\<close>

function ConfYamlParse_loop ::
  "yaml_parser_t \<Rightarrow> heap \<Rightarrow> addr \<Rightarrow> bool \<Rightarrow> addr \<Rightarrow> conf_state \<Rightarrow> nat
     \<Rightarrow> outcome \<times> yaml_parser_t \<times> heap"
where
  "ConfYamlParse_loop [] h parent inseq node state seq_idx = (OutOfEvents, [], h)"
| "ConfYamlParse_loop (ParseFailed # parser) h parent inseq node state seq_idx =
     (Returned (- 1), parser, h)"
| "ConfYamlParse_loop (Parsed (YAML_DOCUMENT_START_EVENT ver) # parser) h parent inseq node state seq_idx =
     (case ver of
        None \<Rightarrow> (Returned (- 1), parser, h)
      | Some (major, minor) \<Rightarrow>
          if \<not> (major = 1 \<and> minor = 1) then (Returned (- 1), parser, h)
          else ConfYamlParse_loop parser h parent inseq node state seq_idx)"
| "ConfYamlParse_loop (Parsed (YAML_SCALAR_EVENT v) # parser) h parent inseq node state seq_idx =
     (if inseq then
        ConfYamlParse_loop parser (seq_scalar h parent seq_idx (c_str v)) parent inseq node state (seq_idx + 1)
      else if state = CONF_KEY then
        (case ConfNodeLookupChild h parent (c_str v) of
           None \<Rightarrow>
             (case key_node h parent (c_str v) of
                (node', h') \<Rightarrow> ConfYamlParse_loop parser h' parent inseq node' CONF_VAL seq_idx)
         | Some n0 \<Rightarrow>
             if allow_override (h ! n0) then
               (case key_node (ConfNodeRemove h parent n0) parent (c_str v) of
                  (node', h') \<Rightarrow> ConfYamlParse_loop parser h' parent inseq node' CONF_VAL seq_idx)
             else ConfYamlParse_loop parser h parent inseq node CONF_VAL seq_idx)
      else ConfYamlParse_loop parser (set_val h node (c_str v)) parent inseq node CONF_KEY seq_idx)"
| "ConfYamlParse_loop (Parsed YAML_SEQUENCE_START_EVENT # parser) h parent inseq node state seq_idx =
     (case ConfYamlParse_loop parser h node True node CONF_KEY 0 of
        (OutOfEvents, parser', h') \<Rightarrow> (OutOfEvents, parser', h')
      | (Returned r, parser', h') \<Rightarrow>
          if r \<noteq> 0 then (Returned (- 1), parser', h')
          else ConfYamlParse_loop parser' h' parent inseq node CONF_KEY seq_idx)"
| "ConfYamlParse_loop (Parsed YAML_SEQUENCE_END_EVENT # parser) h parent inseq node state seq_idx =
     (Returned 0, parser, h)"
| "ConfYamlParse_loop (Parsed YAML_MAPPING_START_EVENT # parser) h parent inseq node state seq_idx =
     (if inseq then
        (case seq_mapping h node seq_idx of
           (seq_node, h1) \<Rightarrow>
             (case ConfYamlParse_loop parser h1 seq_node False seq_node CONF_KEY 0 of
                (OutOfEvents, parser', h') \<Rightarrow> (OutOfEvents, parser', h')
              | (Returned r, parser', h') \<Rightarrow>
                  ConfYamlParse_loop parser' h' parent inseq node CONF_KEY (seq_idx + 1)))
      else
        (case ConfYamlParse_loop parser h node inseq node CONF_KEY 0 of
           (OutOfEvents, parser', h') \<Rightarrow> (OutOfEvents, parser', h')
         | (Returned r, parser', h') \<Rightarrow>
             ConfYamlParse_loop parser' h' parent inseq node CONF_KEY seq_idx))"
| "ConfYamlParse_loop (Parsed YAML_MAPPING_END_EVENT # parser) h parent inseq node state seq_idx =
     (Returned 0, parser, h)"
| "ConfYamlParse_loop (Parsed YAML_STREAM_END_EVENT # parser) h parent inseq node state seq_idx =
     (Returned 0, parser, h)"
| "ConfYamlParse_loop (Parsed YAML_NO_EVENT # parser) h parent inseq node state seq_idx =
     ConfYamlParse_loop parser h parent inseq node state seq_idx"
| "ConfYamlParse_loop (Parsed YAML_STREAM_START_EVENT # parser) h parent inseq node state seq_idx =
     ConfYamlParse_loop parser h parent inseq node state seq_idx"
| "ConfYamlParse_loop (Parsed YAML_DOCUMENT_END_EVENT # parser) h parent inseq node state seq_idx =
     ConfYamlParse_loop parser h parent inseq node state seq_idx"
| "ConfYamlParse_loop (Parsed YAML_ALIAS_EVENT # parser) h parent inseq node state seq_idx =
     ConfYamlParse_loop parser h parent inseq node state seq_idx"
  by pat_completeness auto

text \<open>\<^verbatim>\<open>ConfYamlParse(parser, parent, inseq)\<close>: the loop with the initial values of the locals
  (lines 42 to 46).\<close>

definition ConfYamlParse ::
  "yaml_parser_t \<Rightarrow> heap \<Rightarrow> addr \<Rightarrow> bool \<Rightarrow> outcome \<times> yaml_parser_t \<times> heap" where
  "ConfYamlParse parser h parent inseq = ConfYamlParse_loop parser h parent inseq parent CONF_KEY 0"

section \<open>The entry points\<close>

text \<open>
  \<^verbatim>\<open>ConfGetRootNode()\<close> belongs to the tree module; the root is an argument here, with the
  store that holds the tree before the load. \<^verbatim>\<open>ConfYamlLoadString\<close> runs the builder on the
  root, outside a sequence, and returns what it returns. \<^verbatim>\<open>ConfYamlLoadFile\<close> does the same
  once the file is open; a file that cannot be opened (\<open>None\<close>) gives -1 and leaves the
  tree alone.
\<close>

definition ConfYamlLoadString :: "heap \<Rightarrow> addr \<Rightarrow> yaml_parser_t \<Rightarrow> outcome \<times> heap" where
  "ConfYamlLoadString h root parser =
     (case ConfYamlParse parser h root False of (ret, parser', h') \<Rightarrow> (ret, h'))"

definition ConfYamlLoadFile :: "heap \<Rightarrow> addr \<Rightarrow> yaml_parser_t option \<Rightarrow> outcome \<times> heap" where
  "ConfYamlLoadFile h root infile =
     (case infile of
        None \<Rightarrow> (Returned (- 1), h)
      | Some parser \<Rightarrow>
          (case ConfYamlParse parser h root False of (ret, parser', h') \<Rightarrow> (ret, h')))"


section \<open>Reading the tree\<close>

text \<open>Modelled from the spec: \<^verbatim>\<open>ConfInit\<close> and \<^verbatim>\<open>ConfGetNode\<close> of the tree module, which the
  unit tests of the loader use: \<^verbatim>\<open>ConfInit\<close> leaves a root without name, value or children,
  and \<^verbatim>\<open>ConfGetNode("a.b")\<close> is the node reached from the root through the child named
  \<open>a\<close> and its child named \<open>b\<close>. The dotted path is given as the list of its names.\<close>

definition ConfInit :: heap where
  "ConfInit = [\<lparr>name = None, val = None, is_seq = False, allow_override = False, head = []\<rparr>]"

fun ConfGetNode :: "heap \<Rightarrow> addr \<Rightarrow> string list \<Rightarrow> addr option" where
  "ConfGetNode h a [] = Some a"
| "ConfGetNode h a (nm # nms) =
     (case ConfNodeLookupChild h a nm of None \<Rightarrow> None | Some c \<Rightarrow> ConfGetNode h c nms)"

text \<open>The children of a node, in queue order, each as its name and its value.\<close>

definition named_vals :: "heap \<Rightarrow> addr \<Rightarrow> (string option \<times> string option) list" where
  "named_vals h a = map (\<lambda>c. (name (h ! c), val (h ! c))) (head (h ! a))"

definition child_names :: "heap \<Rightarrow> addr list \<Rightarrow> string option list" where
  "child_names h cs = map (\<lambda>c. name (h ! c)) cs"

section \<open>Documents\<close>

text \<open>
  The events libyaml delivers for the document of \<^verbatim>\<open>ConfYamlLoggingOutputTest\<close>:
  \<^verbatim>\<open>
  %YAML 1.1
  ---
  logging:
    output:
      - interface: console
        log-level: error
      - interface: syslog
        facility: local4
        log-level: info
  \<close>
\<close>

definition logging_output_events :: yaml_parser_t where
  "logging_output_events = map Parsed
    [YAML_STREAM_START_EVENT, YAML_DOCUMENT_START_EVENT (Some (1, 1)),
     YAML_MAPPING_START_EVENT,
       YAML_SCALAR_EVENT ''logging'',
       YAML_MAPPING_START_EVENT,
         YAML_SCALAR_EVENT ''output'',
         YAML_SEQUENCE_START_EVENT,
           YAML_MAPPING_START_EVENT,
             YAML_SCALAR_EVENT ''interface'', YAML_SCALAR_EVENT ''console'',
             YAML_SCALAR_EVENT ''log-level'', YAML_SCALAR_EVENT ''error'',
           YAML_MAPPING_END_EVENT,
           YAML_MAPPING_START_EVENT,
             YAML_SCALAR_EVENT ''interface'', YAML_SCALAR_EVENT ''syslog'',
             YAML_SCALAR_EVENT ''facility'', YAML_SCALAR_EVENT ''local4'',
             YAML_SCALAR_EVENT ''log-level'', YAML_SCALAR_EVENT ''info'',
           YAML_MAPPING_END_EVENT,
         YAML_SEQUENCE_END_EVENT,
       YAML_MAPPING_END_EVENT,
     YAML_MAPPING_END_EVENT,
     YAML_DOCUMENT_END_EVENT, YAML_STREAM_END_EVENT]"

text \<open>
  The content of a well-formed document, and the events the parser delivers for it: a
  scalar is one event, a sequence is its elements between a start and an end event, a
  mapping is its entries between a start and an end event, each entry a scalar key followed
  by its value.
\<close>

datatype ynode = YScalar string | YSeq "ynode list" | YMap "(string \<times> ynode) list"

fun events_of :: "ynode \<Rightarrow> yaml_parser_t" where
  "events_of (YScalar s) = [Parsed (YAML_SCALAR_EVENT s)]"
| "events_of (YSeq xs) =
     Parsed YAML_SEQUENCE_START_EVENT # concat (map events_of xs) @ [Parsed YAML_SEQUENCE_END_EVENT]"
| "events_of (YMap kvs) =
     Parsed YAML_MAPPING_START_EVENT
       # concat (map (\<lambda>(k, v). Parsed (YAML_SCALAR_EVENT k) # events_of v) kvs)
       @ [Parsed YAML_MAPPING_END_EVENT]"

text \<open>An element that is not itself a sequence: a scalar or a mapping.\<close>

fun not_seq :: "ynode \<Rightarrow> bool" where
  "not_seq (YSeq xs) = False"
| "not_seq y = True"

text \<open>The events that no branch of the loop looks at.\<close>

fun ignored :: "parse_result \<Rightarrow> bool" where
  "ignored (Parsed YAML_NO_EVENT) = True"
| "ignored (Parsed YAML_STREAM_START_EVENT) = True"
| "ignored (Parsed YAML_DOCUMENT_END_EVENT) = True"
| "ignored (Parsed YAML_ALIAS_EVENT) = True"
| "ignored r = False"

text \<open>The start of a stream that holds the documents \<open>docs\<close>, each with the directive
  \<^verbatim>\<open>%YAML 1.1\<close>, up to the point where the next document starts.\<close>

definition stream_start :: "ynode list \<Rightarrow> yaml_parser_t" where
  "stream_start docs =
     Parsed YAML_STREAM_START_EVENT
       # concat (map (\<lambda>d. Parsed (YAML_DOCUMENT_START_EVENT (Some (1, 1))) # events_of d
                            @ [Parsed YAML_DOCUMENT_END_EVENT]) docs)"

text \<open>The whole stream of a document with the prologue \<^verbatim>\<open>%YAML 1.1\<close>, and the documents
  of \<^verbatim>\<open>ConfYamlRuleFileTest\<close> and \<^verbatim>\<open>ConfYamlSecondLevelSequenceTest\<close>.\<close>

definition stream_of :: "ynode \<Rightarrow> yaml_parser_t" where
  "stream_of y =
     Parsed YAML_STREAM_START_EVENT # Parsed (YAML_DOCUMENT_START_EVENT (Some (1, 1)))
       # events_of y @ [Parsed YAML_DOCUMENT_END_EVENT, Parsed YAML_STREAM_END_EVENT]"

definition rule_files_document :: ynode where
  "rule_files_document =
     YMap [(''rule-files'', YSeq [YScalar ''netbios.rules'', YScalar ''x11.rules'']),
           (''default-log-dir'', YScalar ''/tmp'')]"

definition libhtp_document :: ynode where
  "libhtp_document =
     YMap [(''libhtp'', YMap [(''server-config'', YSeq
       [YMap [(''apache-php'', YMap
          [(''address'', YSeq [YScalar ''192.168.1.0/24'']),
           (''personality'', YSeq [YScalar ''Apache_2_2'', YScalar ''PHP_5_3'']),
           (''path-parsing'', YSeq [YScalar ''compress_separators'', YScalar ''lowercase''])])],
        YMap [(''iis-php'', YMap
          [(''address'', YSeq [YScalar ''192.168.0.0/24'']),
           (''personality'', YSeq [YScalar ''IIS_7_0'', YScalar ''PHP_5_3'']),
           (''path-parsing'', YSeq [YScalar ''compress_separators''])])]])])]"

section \<open>What an invocation may change\<close>

text \<open>
  \<open>touched W h h'\<close>: the store \<open>h'\<close> comes from \<open>h\<close> by allocating new nodes and writing
  to old nodes in \<open>W\<close> only; name and flags of every old node are as before, and an old
  node that is not \<^verbatim>\<open>allow_override\<close> is still in every child queue it was in.
\<close>

definition touched :: "addr set \<Rightarrow> heap \<Rightarrow> heap \<Rightarrow> bool" where
  "touched W h h' \<longleftrightarrow>
     length h \<le> length h' \<and>
     (\<forall>a<length h.
        name (h' ! a) = name (h ! a) \<and> is_seq (h' ! a) = is_seq (h ! a) \<and>
        allow_override (h' ! a) = allow_override (h ! a) \<and>
        (a \<notin> W \<longrightarrow> h' ! a = h ! a) \<and>
        (\<not> allow_override (h ! a) \<longrightarrow>
           (\<forall>q<length h. a \<in> set (head (h ! q)) \<longrightarrow> a \<in> set (head (h' ! q)))))"

text \<open>
  \<open>passes_through evs\<close>: from every state of the loop, the events \<open>evs\<close> are read
  without the invocation returning, and the loop is then at the event after them with the
  same parent and mode; in sequence mode the cursor is the same too.
\<close>

definition passes_through :: "yaml_parser_t \<Rightarrow> bool" where
  "passes_through evs \<longleftrightarrow>
     (\<forall>rest h parent inseq node state idx.
        \<exists>h' node' state' idx'.
          ConfYamlParse_loop (evs @ rest) h parent inseq node state idx =
          ConfYamlParse_loop rest h' parent inseq node' state' idx' \<and>
          (inseq \<longrightarrow> node' = node))"

section \<open>Seeded trees and the documents loaded onto them\<close>

text \<open>A tree whose root has one child \<open>foo\<close> with value \<open>seed\<close> that may not be
  overridden, and the events of the documents
  \<^verbatim>\<open>
  %YAML 1.1
  ---
  foo: replacement
  \<close>
  and
  \<^verbatim>\<open>
  %YAML 1.1
  ---
  bar: one
  foo: replacement
  \<close>
\<close>

definition seeded_foo :: heap where
  "seeded_foo =
     [\<lparr>name = None, val = None, is_seq = False, allow_override = False, head = [1]\<rparr>,
      \<lparr>name = Some ''foo'', val = Some ''seed'', is_seq = False, allow_override = False, head = []\<rparr>]"

definition foo_replacement_events :: yaml_parser_t where
  "foo_replacement_events = map Parsed
     [YAML_STREAM_START_EVENT, YAML_DOCUMENT_START_EVENT (Some (1, 1)),
      YAML_MAPPING_START_EVENT,
        YAML_SCALAR_EVENT ''foo'', YAML_SCALAR_EVENT ''replacement'',
      YAML_MAPPING_END_EVENT,
      YAML_DOCUMENT_END_EVENT, YAML_STREAM_END_EVENT]"

definition bar_foo_events :: yaml_parser_t where
  "bar_foo_events = map Parsed
     [YAML_STREAM_START_EVENT, YAML_DOCUMENT_START_EVENT (Some (1, 1)),
      YAML_MAPPING_START_EVENT,
        YAML_SCALAR_EVENT ''bar'', YAML_SCALAR_EVENT ''one'',
        YAML_SCALAR_EVENT ''foo'', YAML_SCALAR_EVENT ''replacement'',
      YAML_MAPPING_END_EVENT,
      YAML_DOCUMENT_END_EVENT, YAML_STREAM_END_EVENT]"

text \<open>A document whose first value cannot be scanned, as in
  \<^verbatim>\<open>
  %YAML 1.1
  ---
  foo: "bar
  \<close>
  where the quoted scalar never ends: after the key, \<^verbatim>\<open>yaml_parser_parse\<close> fails.\<close>

definition broken_value_events :: yaml_parser_t where
  "broken_value_events =
     [Parsed YAML_STREAM_START_EVENT, Parsed (YAML_DOCUMENT_START_EVENT (Some (1, 1))),
      Parsed YAML_MAPPING_START_EVENT,
        Parsed (YAML_SCALAR_EVENT ''foo''),
        ParseFailed]"



text \<open>The tree after the key \<open>logging\<close> of a top-level mapping has been read (the cursor is
  the new node 1), and the events of an entry \<^verbatim>\<open>output: console\<close> of the mapping that is the
  value of that key.\<close>

definition logging_key_tree :: heap where
  "logging_key_tree =
     [\<lparr>name = None, val = None, is_seq = False, allow_override = False, head = [1]\<rparr>,
      \<lparr>name = Some ''logging'', val = None, is_seq = False, allow_override = False, head = []\<rparr>]"

definition output_entry_events :: yaml_parser_t where
  "output_entry_events = map Parsed
     [YAML_SCALAR_EVENT ''output'', YAML_SCALAR_EVENT ''console'',
      YAML_MAPPING_END_EVENT, YAML_STREAM_END_EVENT]"

text \<open>The tree after the keys \<open>logging\<close> and \<open>output\<close> reduced to what matters for a
  sequence under \<open>output\<close> (node 1), and the events of a sequence with the one element
  \<^verbatim>\<open>- interface: console\<close>, after its \<^verbatim>\<open>SEQUENCE_START\<close>.\<close>

definition output_key_tree :: heap where
  "output_key_tree =
     [\<lparr>name = None, val = None, is_seq = False, allow_override = False, head = [1]\<rparr>,
      \<lparr>name = Some ''output'', val = None, is_seq = False, allow_override = False, head = []\<rparr>]"

definition console_element_events :: yaml_parser_t where
  "console_element_events = map Parsed
     [YAML_MAPPING_START_EVENT,
        YAML_SCALAR_EVENT ''interface'', YAML_SCALAR_EVENT ''console'',
      YAML_MAPPING_END_EVENT,
      YAML_SEQUENCE_END_EVENT]"

text \<open>The two elements of the sequence \<open>logging.output\<close> of the unit test, and a
  sequence \<^verbatim>\<open>[a, [b, c]]\<close> of two elements, the second one a sequence; the events of the
  latter after its \<^verbatim>\<open>SEQUENCE_START\<close>.\<close>

definition logging_outputs :: "ynode list" where
  "logging_outputs =
     [YMap [(''interface'', YScalar ''console''), (''log-level'', YScalar ''error'')],
      YMap [(''interface'', YScalar ''syslog''), (''facility'', YScalar ''local4''),
            (''log-level'', YScalar ''info'')]]"

definition nested_elements :: "ynode list" where
  "nested_elements = [YScalar ''a'', YSeq [YScalar ''b'', YScalar ''c'']]"

definition flat_then_nested_events :: yaml_parser_t where
  "flat_then_nested_events = map Parsed
     [YAML_SCALAR_EVENT ''a'',
      YAML_SEQUENCE_START_EVENT,
        YAML_SCALAR_EVENT ''b'', YAML_SCALAR_EVENT ''c'',
      YAML_SEQUENCE_END_EVENT,
      YAML_SEQUENCE_END_EVENT]"



text \<open>Scalars with a NUL byte, as the double-quoted YAML scalars \<^verbatim>\<open>"a\0b"\<close> and \<^verbatim>\<open>"r\0z"\<close>
  give them: a sequence element \<^verbatim>\<open>- "a\0b": console\<close> after the \<^verbatim>\<open>SEQUENCE_START\<close> of its
  sequence, and the document \<^verbatim>\<open>foo: "r\0z"\<close>.\<close>

definition nul_key_element_events :: yaml_parser_t where
  "nul_key_element_events = map Parsed
     [YAML_MAPPING_START_EVENT,
        YAML_SCALAR_EVENT [CHR ''a'', CHR 0x00, CHR ''b''], YAML_SCALAR_EVENT ''console'',
      YAML_MAPPING_END_EVENT,
      YAML_SEQUENCE_END_EVENT]"

definition foo_nul_value_events :: yaml_parser_t where
  "foo_nul_value_events = map Parsed
     [YAML_STREAM_START_EVENT, YAML_DOCUMENT_START_EVENT (Some (1, 1)),
      YAML_MAPPING_START_EVENT,
        YAML_SCALAR_EVENT ''foo'', YAML_SCALAR_EVENT [CHR ''r'', CHR 0x00, CHR ''z''],
      YAML_MAPPING_END_EVENT,
      YAML_DOCUMENT_END_EVENT, YAML_STREAM_END_EVENT]"

section \<open>Termination of the builder\<close>

text \<open>The loop ends: a nested call hands the parser back no longer than it got it, and
  every turn of the loop takes one result off the parser.\<close>

lemma ConfYamlParse_loop_parser_length:
  "ConfYamlParse_loop_dom (p, h, parent, inseq, node, st, idx) \<Longrightarrow>
   length (fst (snd (ConfYamlParse_loop p h parent inseq node st idx))) \<le> length p"
proof (induction p h parent inseq node st idx rule: ConfYamlParse_loop.pinduct)
  case (3 ver parser h parent inseq node state seq_idx)
  show ?case
  proof (cases "ver = Some (1, 1)")
    case True
    with 3 have "length (fst (snd (ConfYamlParse_loop parser h parent inseq node state seq_idx))) \<le> length parser"
      by simp
    with 3(1) True show ?thesis by (simp add: ConfYamlParse_loop.psimps)
  next
    case False
    with 3(1) show ?thesis by (auto simp add: ConfYamlParse_loop.psimps split: option.splits)
  qed
next
  case (4 v parser h parent inseq node state seq_idx)
  note dom = 4(1)
  show ?case
  proof (cases inseq)
    case True
    with 4(2) dom show ?thesis by (simp add: ConfYamlParse_loop.psimps le_SucI)
  next
    case F: False
    show ?thesis
    proof (cases "state = CONF_KEY")
      case K: True
      show ?thesis
      proof (cases "ConfNodeLookupChild h parent (c_str v)")
        case None
        obtain n' h' where N: "key_node h parent (c_str v) = (n', h')" by (cases "key_node h parent (c_str v)") auto
        from 4(3)[OF F K None N[symmetric]] dom F K None N show ?thesis
          by (simp add: ConfYamlParse_loop.psimps le_SucI)
      next
        case (Some n0)
        show ?thesis
        proof (cases "allow_override (h ! n0)")
          case A: True
          obtain n' h' where N: "key_node (ConfNodeRemove h parent n0) parent (c_str v) = (n', h')"
            by (cases "key_node (ConfNodeRemove h parent n0) parent (c_str v)") auto
          from 4(4)[OF F K Some A N[symmetric]] dom F K Some A N show ?thesis
            by (simp add: ConfYamlParse_loop.psimps le_SucI)
        next
          case A: False
          from 4(5)[OF F K Some A] dom F K Some A show ?thesis
            by (simp add: ConfYamlParse_loop.psimps le_SucI)
        qed
      qed
    next
      case K: False
      from 4(6)[OF F K] dom F K show ?thesis
        by (simp add: ConfYamlParse_loop.psimps le_SucI)
    qed
  qed
next
  case (5 parser h parent inseq node state seq_idx)
  obtain r p' h' where E: "ConfYamlParse_loop parser h node True node CONF_KEY 0 = (r, p', h')"
    by (cases "ConfYamlParse_loop parser h node True node CONF_KEY 0") auto
  with 5(2) have L: "length p' \<le> length parser" by simp
  show ?case
  proof (cases r)
    case (Returned x)
    show ?thesis
    proof (cases "x = 0")
      case True
      with 5(3)[OF E[symmetric] Returned refl] have "length (fst (snd (ConfYamlParse_loop p' h' parent inseq node CONF_KEY seq_idx))) \<le> length p'"
        by simp
      with 5(1) E Returned True L show ?thesis by (simp add: ConfYamlParse_loop.psimps)
    next
      case False
      with 5(1) E Returned L show ?thesis by (simp add: ConfYamlParse_loop.psimps)
    qed
  next
    case OutOfEvents
    with 5(1) E L show ?thesis by (simp add: ConfYamlParse_loop.psimps)
  qed
next
  case (7 parser h parent inseq node state seq_idx)
  show ?case
  proof (cases inseq)
    case True
    obtain s h1 where S: "seq_mapping h node seq_idx = (s, h1)" by (cases "seq_mapping h node seq_idx") auto
    obtain r p' h' where E: "ConfYamlParse_loop parser h1 s False s CONF_KEY 0 = (r, p', h')"
      by (cases "ConfYamlParse_loop parser h1 s False s CONF_KEY 0") auto
    from 7(2)[OF True S[symmetric]] E have L: "length p' \<le> length parser" by simp
    show ?thesis
    proof (cases r)
      case (Returned x)
      from 7(3)[OF True S[symmetric] E[symmetric] Returned refl]
      have "length (fst (snd (ConfYamlParse_loop p' h' parent inseq node CONF_KEY (seq_idx + 1)))) \<le> length p'"
        by simp
      with 7(1) True S E Returned L show ?thesis by (simp add: ConfYamlParse_loop.psimps)
    next
      case OutOfEvents
      with 7(1) True S E L show ?thesis by (simp add: ConfYamlParse_loop.psimps)
    qed
  next
    case False
    obtain r p' h' where E: "ConfYamlParse_loop parser h node inseq node CONF_KEY 0 = (r, p', h')"
      by (cases "ConfYamlParse_loop parser h node inseq node CONF_KEY 0") auto
    from 7(4)[OF False] E have L: "length p' \<le> length parser" by simp
    show ?thesis
    proof (cases r)
      case (Returned x)
      from 7(5)[OF False E[symmetric] Returned refl]
      have "length (fst (snd (ConfYamlParse_loop p' h' parent inseq node CONF_KEY seq_idx))) \<le> length p'"
        by simp
      with 7(1) False E Returned L show ?thesis by (simp add: ConfYamlParse_loop.psimps)
    next
      case OutOfEvents
      with 7(1) False E L show ?thesis by (simp add: ConfYamlParse_loop.psimps)
    qed
  qed
qed (simp_all add: ConfYamlParse_loop.psimps le_SucI)

lemma ConfYamlParse_loop_parser_shorter:
  "ConfYamlParse_loop_dom (p, h, parent, inseq, node, st, idx) \<Longrightarrow>
   (r, p', h') = ConfYamlParse_loop p h parent inseq node st idx \<Longrightarrow> length p' < Suc (length p)"
  using ConfYamlParse_loop_parser_length[of p h parent inseq node st idx] by (metis fst_conv snd_conv less_Suc_eq_le)

termination ConfYamlParse_loop
  apply (relation "measure (\<lambda>(p, h, parent, inseq, node, st, idx). length p)")
  apply (auto elim: ConfYamlParse_loop_parser_shorter)
  done

section \<open>The store operations\<close>

lemmas heap_defs = seq_mapping_def seq_scalar_def key_node_def ConfNodeNew_def
  ConfNodeLookupChild_def ConfNodeRemove_def set_name_def set_val_def set_is_seq_def
  TAILQ_INSERT_TAIL_def Let_def

lemma nth_upd_cell: "(h[a := x]) ! b = (if b = a \<and> a < length h then x else h ! b)"
  by (cases "a < length h") (auto simp: nth_list_update list_update_beyond)

lemma touched_refl: "touched W h h"
  by (simp add: touched_def)

lemma touched_mono: "touched W h h' \<Longrightarrow> W \<subseteq> W' \<Longrightarrow> touched W' h h'"
  unfolding touched_def by blast

lemma touched_trans:
  assumes 1: "touched W h h1" and 2: "touched W' h1 h2"
    and 3: "\<And>a. a \<in> W' \<Longrightarrow> a < length h \<Longrightarrow> a \<in> W"
  shows "touched W h h2"
  unfolding touched_def
proof (intro conjI allI impI)
  from 1 2 show "length h \<le> length h2" by (simp add: touched_def)
next
  fix a assume a: "a < length h"
  with 1 have a1: "a < length h1" by (simp add: touched_def)
  from 1 2 a a1 show "name (h2 ! a) = name (h ! a)" by (simp add: touched_def)
  from 1 2 a a1 show "is_seq (h2 ! a) = is_seq (h ! a)" by (simp add: touched_def)
  from 1 2 a a1 show ov: "allow_override (h2 ! a) = allow_override (h ! a)" by (simp add: touched_def)
  {
    assume "a \<notin> W"
    with 3 a have "a \<notin> W'" by blast
    with 1 2 a a1 \<open>a \<notin> W\<close> show "h2 ! a = h ! a" by (simp add: touched_def)
  }
  {
    fix q assume q: "q < length h" and na: "\<not> allow_override (h ! a)" and m: "a \<in> set (head (h ! q))"
    from 1 q have q1: "q < length h1" by (simp add: touched_def)
    from 1 a q na m have m1: "a \<in> set (head (h1 ! q))" by (simp add: touched_def)
    from 1 a na have na1: "\<not> allow_override (h1 ! a)" by (simp add: touched_def)
    from 2 a1 q1 na1 m1 show "a \<in> set (head (h2 ! q))" by (simp add: touched_def)
  }
qed

lemma touched_length: "touched W h h' \<Longrightarrow> length h \<le> length h'"
  by (simp add: touched_def)

lemma touched_cell: "touched W h h' \<Longrightarrow> a < length h \<Longrightarrow> a \<notin> W \<Longrightarrow> h' ! a = h ! a"
  by (simp add: touched_def)

lemma touched_name: "touched W h h' \<Longrightarrow> a < length h \<Longrightarrow> name (h' ! a) = name (h ! a)"
  by (simp add: touched_def)

lemma touched_is_seq: "touched W h h' \<Longrightarrow> a < length h \<Longrightarrow> is_seq (h' ! a) = is_seq (h ! a)"
  by (simp add: touched_def)

lemma touched_allow_override:
  "touched W h h' \<Longrightarrow> a < length h \<Longrightarrow> allow_override (h' ! a) = allow_override (h ! a)"
  by (simp add: touched_def)

lemma touched_child:
  "touched W h h' \<Longrightarrow> a < length h \<Longrightarrow> q < length h \<Longrightarrow> \<not> allow_override (h ! a) \<Longrightarrow>
   a \<in> set (head (h ! q)) \<Longrightarrow> a \<in> set (head (h' ! q))"
  by (simp add: touched_def)

lemma seq_scalar_length: "length (seq_scalar h parent idx v) = Suc (length h)"
  by (simp add: heap_defs)

lemma seq_scalar_touched: "touched {parent} h (seq_scalar h parent idx v)"
  by (auto simp: touched_def heap_defs nth_append nth_upd_cell)

lemma seq_scalar_val: "a < length h \<Longrightarrow> val (seq_scalar h parent idx v ! a) = val (h ! a)"
  by (simp add: heap_defs nth_upd_cell nth_append)

lemma seq_scalar_new:
  "parent < length h \<Longrightarrow>
   seq_scalar h parent idx v ! length h =
     \<lparr>name = Some (decimal idx), val = Some v, is_seq = False, allow_override = False, head = []\<rparr>"
  by (simp add: heap_defs nth_upd_cell nth_append)

lemma seq_scalar_head:
  "parent < length h \<Longrightarrow> head (seq_scalar h parent idx v ! parent) = head (h ! parent) @ [length h]"
  by (simp add: heap_defs nth_upd_cell nth_append)

lemma seq_mapping_fst: "fst (seq_mapping h node idx) = length h"
  by (simp add: heap_defs)

lemma seq_mapping_length: "length (snd (seq_mapping h node idx)) = Suc (length h)"
  by (simp add: heap_defs)

lemma seq_mapping_touched: "touched {node} h (snd (seq_mapping h node idx))"
  by (auto simp: touched_def heap_defs nth_append nth_upd_cell)

lemma seq_mapping_new:
  "node < length h \<Longrightarrow>
   snd (seq_mapping h node idx) ! length h =
     \<lparr>name = Some (decimal idx), val = None, is_seq = True, allow_override = False, head = []\<rparr>"
  by (simp add: heap_defs nth_upd_cell nth_append)

lemma seq_mapping_head:
  "node < length h \<Longrightarrow> head (snd (seq_mapping h node idx) ! node) = head (h ! node) @ [length h]"
  by (simp add: heap_defs nth_upd_cell nth_append)

lemma key_node_fst: "fst (key_node h parent v) = length h"
  by (simp add: heap_defs)

lemma key_node_length: "length (snd (key_node h parent v)) = Suc (length h)"
  by (simp add: heap_defs)

lemma key_node_touched: "touched {parent} h (snd (key_node h parent v))"
  by (auto simp: touched_def heap_defs nth_append nth_upd_cell)

lemma key_node_val:
  "a < length h \<Longrightarrow> val (h ! a) \<noteq> None \<Longrightarrow> val (snd (key_node h parent v) ! a) = val (h ! a)"
  by (auto simp add: heap_defs nth_upd_cell nth_append)

lemma key_node_first_key:
  "parent < length h \<Longrightarrow> is_seq (h ! parent) \<Longrightarrow> val (h ! parent) = None \<Longrightarrow>
   val (snd (key_node h parent v) ! parent) = Some v"
  by (auto simp add: heap_defs nth_upd_cell nth_append)

lemma ConfNodeRemove_length: "length (ConfNodeRemove h parent n0) = length h"
  by (simp add: heap_defs)

lemma ConfNodeRemove_touched:
  "allow_override (h ! n0) \<Longrightarrow> touched {parent} h (ConfNodeRemove h parent n0)"
  by (auto simp: touched_def heap_defs nth_upd_cell)

lemma ConfNodeRemove_val: "val (ConfNodeRemove h parent n0 ! a) = val (h ! a)"
  by (simp add: heap_defs nth_upd_cell)

lemma set_val_length: "length (set_val h node v) = length h"
  by (simp add: heap_defs)

lemma set_val_touched: "touched {node} h (set_val h node v)"
  by (auto simp: touched_def heap_defs nth_upd_cell)

lemma set_val_other: "a \<noteq> node \<Longrightarrow> set_val h node v ! a = h ! a"
  by (simp add: heap_defs nth_upd_cell)

lemma c_str_no_nul: "CHR 0x00 \<notin> set s \<Longrightarrow> c_str s = s"
  by (auto simp: c_str_def takeWhile_eq_all_conv)


lemma lookup_no_children:
  "head (h ! parent) = [] \<Longrightarrow> ConfNodeLookupChild h parent k = None"
  by (simp add: ConfNodeLookupChild_def)

section \<open>What an invocation changes\<close>

text \<open>An invocation writes to its parent, to its cursor and to nodes it allocates, and to
  nothing else.\<close>

lemma loop_touched_aux:
  "touched {parent, node} h (snd (snd (ConfYamlParse_loop p h parent inseq node st idx)))"
proof (induction p h parent inseq node st idx rule: ConfYamlParse_loop.induct)
  case (3 ver parser h parent inseq node state seq_idx)
  show ?case
  proof (cases "ver = Some (1, 1)")
    case True
    with 3 show ?thesis by simp
  next
    case False
    then show ?thesis by (auto simp: touched_refl split: option.splits)
  qed
next
  case (4 v parser h parent inseq node state seq_idx)
  show ?case
  proof (cases inseq)
    case True
    have "touched {parent, node} h (seq_scalar h parent seq_idx (c_str v))"
      by (rule touched_mono[OF seq_scalar_touched]) simp
    from touched_trans[OF this 4(1)[OF True]] True show ?thesis by simp
  next
    case F: False
    show ?thesis
    proof (cases "state = CONF_KEY")
      case K: True
      show ?thesis
      proof (cases "ConfNodeLookupChild h parent (c_str v)")
        case None
        obtain n' h' where N: "key_node h parent (c_str v) = (n', h')" by (cases "key_node h parent (c_str v)") auto
        have n': "n' = length h" using key_node_fst[of h parent "c_str v"] N by simp
        have "touched {parent} h h'" using key_node_touched[of parent h "c_str v"] N by simp
        from touched_trans[OF this 4(2)[OF F K None N[symmetric]]] n' F K None N
        show ?thesis by (auto elim!: touched_mono)
      next
        case (Some n0)
        show ?thesis
        proof (cases "allow_override (h ! n0)")
          case A: True
          let ?h0 = "ConfNodeRemove h parent n0"
          obtain n' h' where N: "key_node ?h0 parent (c_str v) = (n', h')"
            by (cases "key_node ?h0 parent (c_str v)") auto
          have n': "n' = length h"
            using key_node_fst[of ?h0 parent "c_str v"] N by (simp add: ConfNodeRemove_length)
          have "touched {parent} ?h0 h'" using key_node_touched[of parent ?h0 "c_str v"] N by simp
          from touched_trans[OF ConfNodeRemove_touched[OF A] this]
          have "touched {parent} h h'" by simp
          from touched_trans[OF this 4(3)[OF F K Some A N[symmetric]]] n' F K Some A N
          show ?thesis by (auto elim!: touched_mono)
        next
          case A: False
          from 4(4)[OF F K Some A] F K Some A show ?thesis by simp
        qed
      qed
    next
      case K: False
      have "touched {parent, node} h (set_val h node (c_str v))"
        by (rule touched_mono[OF set_val_touched]) simp
      from touched_trans[OF this 4(5)[OF F K]] F K show ?thesis by simp
    qed
  qed
next
  case (5 parser h parent inseq node state seq_idx)
  obtain r p' h' where E: "ConfYamlParse_loop parser h node True node CONF_KEY 0 = (r, p', h')"
    by (cases "ConfYamlParse_loop parser h node True node CONF_KEY 0") auto
  with 5(1) have "touched {node} h h'" by simp
  then have T: "touched {parent, node} h h'"
    by (rule touched_mono) simp
  show ?case
  proof (cases r)
    case (Returned x)
    show ?thesis
    proof (cases "x = 0")
      case True
      with 5(2)[OF E[symmetric] Returned refl]
      have "touched {parent, node} h' (snd (snd (ConfYamlParse_loop p' h' parent inseq node CONF_KEY seq_idx)))"
        by simp
      from touched_trans[OF T this] E Returned True show ?thesis by simp
    next
      case False
      with E Returned T show ?thesis by simp
    qed
  next
    case OutOfEvents
    with E T show ?thesis by simp
  qed
next
  case (7 parser h parent inseq node state seq_idx)
  show ?case
  proof (cases inseq)
    case True
    obtain s h1 where S: "seq_mapping h node seq_idx = (s, h1)" by (cases "seq_mapping h node seq_idx") auto
    have s: "s = length h" using seq_mapping_fst[of h node seq_idx] S by simp
    have T1: "touched {node} h h1" using seq_mapping_touched[of node h seq_idx] S by simp
    obtain r p' h' where E: "ConfYamlParse_loop parser h1 s False s CONF_KEY 0 = (r, p', h')"
      by (cases "ConfYamlParse_loop parser h1 s False s CONF_KEY 0") auto
    from 7(1)[OF True S[symmetric]] E have "touched {s} h1 h'" by simp
    from touched_trans[OF T1 this] s have "touched {node} h h'" by simp
    then have T: "touched {parent, node} h h'"
      by (rule touched_mono) simp
    show ?thesis
    proof (cases r)
      case (Returned x)
      from 7(2)[OF True S[symmetric] E[symmetric] Returned refl]
      have "touched {parent, node} h' (snd (snd (ConfYamlParse_loop p' h' parent inseq node CONF_KEY (seq_idx + 1))))"
        by simp
      from touched_trans[OF T this] True S E Returned show ?thesis by simp
    next
      case OutOfEvents
      with True S E T show ?thesis by simp
    qed
  next
    case False
    obtain r p' h' where E: "ConfYamlParse_loop parser h node inseq node CONF_KEY 0 = (r, p', h')"
      by (cases "ConfYamlParse_loop parser h node inseq node CONF_KEY 0") auto
    from 7(3)[OF False] E have "touched {node} h h'" by simp
    then have T: "touched {parent, node} h h'"
      by (rule touched_mono) simp
    show ?thesis
    proof (cases r)
      case (Returned x)
      from 7(4)[OF False E[symmetric] Returned refl]
      have "touched {parent, node} h' (snd (snd (ConfYamlParse_loop p' h' parent inseq node CONF_KEY seq_idx)))"
        by simp
      from touched_trans[OF T this] False E Returned show ?thesis by simp
    next
      case OutOfEvents
      with False E T show ?thesis by simp
    qed
  qed
qed (simp_all add: touched_refl)

lemma loop_touched:
  "ConfYamlParse_loop p h parent inseq node st idx = (r, p', h') \<Longrightarrow> touched {parent, node} h h'"
  using loop_touched_aux[of parent node h p inseq st idx] by simp

text \<open>Once the cursor has left the parent, the value of the parent, if it has one, stays.\<close>

lemma loop_parent_val:
  "node \<noteq> parent \<Longrightarrow> parent < length h \<Longrightarrow> val (h ! parent) \<noteq> None \<Longrightarrow>
   val (snd (snd (ConfYamlParse_loop p h parent inseq node st idx)) ! parent) = val (h ! parent)"
proof (induction p h parent inseq node st idx rule: ConfYamlParse_loop.induct)
  case (3 ver parser h parent inseq node state seq_idx)
  show ?case
  proof (cases "ver = Some (1, 1)")
    case True
    with 3 show ?thesis by simp
  next
    case False
    then show ?thesis by (auto split: option.splits)
  qed
next
  case (4 v parser h parent inseq node state seq_idx)
  note pre = 4(6-8)
  show ?case
  proof (cases inseq)
    case True
    from 4(1)[OF True pre(1)] pre True show ?thesis
      by (simp add: seq_scalar_length seq_scalar_val)
  next
    case F: False
    show ?thesis
    proof (cases "state = CONF_KEY")
      case K: True
      show ?thesis
      proof (cases "ConfNodeLookupChild h parent (c_str v)")
        case None
        obtain n' h' where N: "key_node h parent (c_str v) = (n', h')" by (cases "key_node h parent (c_str v)") auto
        have n': "n' = length h" using key_node_fst[of h parent "c_str v"] N by simp
        have l: "length h' = Suc (length h)" using key_node_length[of h parent "c_str v"] N by simp
        have pv: "val (h' ! parent) = val (h ! parent)"
          using key_node_val[OF pre(2,3), of parent "c_str v"] N by simp
        from 4(2)[OF F K None N[symmetric]] n' l pv pre F K None N show ?thesis by simp
      next
        case (Some n0)
        show ?thesis
        proof (cases "allow_override (h ! n0)")
          case A: True
          let ?h0 = "ConfNodeRemove h parent n0"
          obtain n' h' where N: "key_node ?h0 parent (c_str v) = (n', h')"
            by (cases "key_node ?h0 parent (c_str v)") auto
          have n': "n' = length h"
            using key_node_fst[of ?h0 parent "c_str v"] N by (simp add: ConfNodeRemove_length)
          have l: "length h' = Suc (length h)"
            using key_node_length[of ?h0 parent "c_str v"] N by (simp add: ConfNodeRemove_length)
          have pv: "val (h' ! parent) = val (h ! parent)"
            using key_node_val[of parent ?h0 parent "c_str v"] pre N
            by (simp add: ConfNodeRemove_length ConfNodeRemove_val)
          from 4(3)[OF F K Some A N[symmetric]] n' l pv pre F K Some A N show ?thesis by simp
        next
          case A: False
          from 4(4)[OF F K Some A] pre F K Some A show ?thesis by simp
        qed
      qed
    next
      case K: False
      from 4(5)[OF F K pre(1)] pre F K show ?thesis
        by (simp add: set_val_length set_val_other)
    qed
  qed
next
  case (5 parser h parent inseq node state seq_idx)
  note pre = 5(3-5)
  obtain r p' h' where E: "ConfYamlParse_loop parser h node True node CONF_KEY 0 = (r, p', h')"
    by (cases "ConfYamlParse_loop parser h node True node CONF_KEY 0") auto
  from loop_touched[OF E] have T: "touched {node} h h'" by simp
  have c: "h' ! parent = h ! parent" using touched_cell[OF T pre(2)] pre(1) by simp
  have l: "parent < length h'" using touched_length[OF T] pre(2) by simp
  show ?case
  proof (cases r)
    case (Returned x)
    show ?thesis
    proof (cases "x = 0")
      case True
      from 5(2)[OF E[symmetric] Returned refl _ pre(1) l] True c pre E Returned
      show ?thesis by simp
    next
      case False
      with E Returned c show ?thesis by simp
    qed
  next
    case OutOfEvents
    with E c show ?thesis by simp
  qed
next
  case (7 parser h parent inseq node state seq_idx)
  note pre = 7(5-7)
  show ?case
  proof (cases inseq)
    case True
    obtain s h1 where S: "seq_mapping h node seq_idx = (s, h1)" by (cases "seq_mapping h node seq_idx") auto
    have s: "s = length h" using seq_mapping_fst[of h node seq_idx] S by simp
    have T1: "touched {node} h h1" using seq_mapping_touched[of node h seq_idx] S by simp
    obtain r p' h' where E: "ConfYamlParse_loop parser h1 s False s CONF_KEY 0 = (r, p', h')"
      by (cases "ConfYamlParse_loop parser h1 s False s CONF_KEY 0") auto
    from loop_touched[OF E] have T2: "touched {s} h1 h'" by simp
    from touched_trans[OF T1 T2] s have T: "touched {node} h h'" by simp
    have c: "h' ! parent = h ! parent" using touched_cell[OF T pre(2)] pre(1) by simp
    have l: "parent < length h'" using touched_length[OF T] pre(2) by simp
    show ?thesis
    proof (cases r)
      case (Returned x)
      from 7(2)[OF True S[symmetric] E[symmetric] Returned refl pre(1) l] c pre True S E Returned
      show ?thesis by simp
    next
      case OutOfEvents
      with True S E c show ?thesis by simp
    qed
  next
    case False
    obtain r p' h' where E: "ConfYamlParse_loop parser h node inseq node CONF_KEY 0 = (r, p', h')"
      by (cases "ConfYamlParse_loop parser h node inseq node CONF_KEY 0") auto
    from loop_touched[OF E] have T: "touched {node} h h'" by simp
    have c: "h' ! parent = h ! parent" using touched_cell[OF T pre(2)] pre(1) by simp
    have l: "parent < length h'" using touched_length[OF T] pre(2) by simp
    show ?thesis
    proof (cases r)
      case (Returned x)
      from 7(4)[OF False E[symmetric] Returned refl pre(1) l] c pre False E Returned
      show ?thesis by simp
    next
      case OutOfEvents
      with False E c show ?thesis by simp
    qed
  qed
qed simp_all

section \<open>Reading well-formed content\<close>

lemma passes_throughD:
  "passes_through evs \<Longrightarrow>
   \<exists>h' node' state' idx'.
     ConfYamlParse_loop (evs @ rest) h parent inseq node state idx =
     ConfYamlParse_loop rest h' parent inseq node' state' idx' \<and> (inseq \<longrightarrow> node' = node)"
  unfolding passes_through_def by blast

lemma passes_through_Nil: "passes_through []"
  unfolding passes_through_def by auto

lemma passes_through_append:
  assumes "passes_through a" and "passes_through b"
  shows "passes_through (a @ b)"
  unfolding passes_through_def
proof (intro allI)
  fix rest h parent inseq node state idx
  from passes_throughD[OF assms(1), of "b @ rest" h parent inseq node state idx]
  obtain h1 n1 s1 i1 where
    A: "ConfYamlParse_loop (a @ b @ rest) h parent inseq node state idx =
        ConfYamlParse_loop (b @ rest) h1 parent inseq n1 s1 i1" and A': "inseq \<longrightarrow> n1 = node"
    by blast
  from passes_throughD[OF assms(2), of rest h1 parent inseq n1 s1 i1]
  obtain h2 n2 s2 i2 where
    B: "ConfYamlParse_loop (b @ rest) h1 parent inseq n1 s1 i1 =
        ConfYamlParse_loop rest h2 parent inseq n2 s2 i2" and B': "inseq \<longrightarrow> n2 = n1"
    by blast
  from A B A' B'
  show "\<exists>h' node' state' idx'.
          ConfYamlParse_loop ((a @ b) @ rest) h parent inseq node state idx =
          ConfYamlParse_loop rest h' parent inseq node' state' idx' \<and> (inseq \<longrightarrow> node' = node)"
    by auto
qed

lemma passes_through_concat:
  "(\<And>e. e \<in> set es \<Longrightarrow> passes_through e) \<Longrightarrow> passes_through (concat es)"
  by (induction es) (auto simp: passes_through_Nil intro: passes_through_append)

lemma passes_through_scalar: "passes_through [Parsed (YAML_SCALAR_EVENT v)]"
  unfolding passes_through_def
proof (intro allI)
  fix rest h parent inseq node state idx
  show "\<exists>h' node' state' idx'.
          ConfYamlParse_loop ([Parsed (YAML_SCALAR_EVENT v)] @ rest) h parent inseq node state idx =
          ConfYamlParse_loop rest h' parent inseq node' state' idx' \<and> (inseq \<longrightarrow> node' = node)"
    by (cases inseq; cases state; cases "ConfNodeLookupChild h parent (c_str v)";
        cases "key_node h parent (c_str v)";
        cases "key_node (ConfNodeRemove h parent (the (ConfNodeLookupChild h parent (c_str v)))) parent (c_str v)")
       (auto split: if_splits)
qed

lemma passes_through_sequence:
  assumes "passes_through body"
  shows "passes_through (Parsed YAML_SEQUENCE_START_EVENT # body @ [Parsed YAML_SEQUENCE_END_EVENT])"
  unfolding passes_through_def
proof (intro allI)
  fix rest h parent inseq node state idx
  from passes_throughD[OF assms, of "Parsed YAML_SEQUENCE_END_EVENT # rest" h node True node CONF_KEY 0]
  obtain h1 n1 s1 i1 where
    "ConfYamlParse_loop (body @ Parsed YAML_SEQUENCE_END_EVENT # rest) h node True node CONF_KEY 0 =
     ConfYamlParse_loop (Parsed YAML_SEQUENCE_END_EVENT # rest) h1 node True n1 s1 i1"
    by blast
  then have "ConfYamlParse_loop
               ((Parsed YAML_SEQUENCE_START_EVENT # body @ [Parsed YAML_SEQUENCE_END_EVENT]) @ rest)
               h parent inseq node state idx =
             ConfYamlParse_loop rest h1 parent inseq node CONF_KEY idx"
    by simp
  then show "\<exists>h' node' state' idx'.
          ConfYamlParse_loop
            ((Parsed YAML_SEQUENCE_START_EVENT # body @ [Parsed YAML_SEQUENCE_END_EVENT]) @ rest)
            h parent inseq node state idx =
          ConfYamlParse_loop rest h' parent inseq node' state' idx' \<and> (inseq \<longrightarrow> node' = node)"
    by blast
qed

lemma passes_through_mapping:
  assumes "passes_through body"
  shows "passes_through (Parsed YAML_MAPPING_START_EVENT # body @ [Parsed YAML_MAPPING_END_EVENT])"
  unfolding passes_through_def
proof (intro allI)
  fix rest h parent inseq node state idx
  let ?evs = "(Parsed YAML_MAPPING_START_EVENT # body @ [Parsed YAML_MAPPING_END_EVENT]) @ rest"
  have "\<exists>h' idx'. ConfYamlParse_loop ?evs h parent inseq node state idx =
                   ConfYamlParse_loop rest h' parent inseq node CONF_KEY idx'"
  proof (cases inseq)
    case True
    obtain s h0 where S: "seq_mapping h node idx = (s, h0)" by (cases "seq_mapping h node idx") auto
    from passes_throughD[OF assms, of "Parsed YAML_MAPPING_END_EVENT # rest" h0 s False s CONF_KEY 0]
    obtain h1 n1 s1 i1 where
      "ConfYamlParse_loop (body @ Parsed YAML_MAPPING_END_EVENT # rest) h0 s False s CONF_KEY 0 =
       ConfYamlParse_loop (Parsed YAML_MAPPING_END_EVENT # rest) h1 s False n1 s1 i1"
      by blast
    with True S have "ConfYamlParse_loop ?evs h parent inseq node state idx =
                      ConfYamlParse_loop rest h1 parent inseq node CONF_KEY (idx + 1)"
      by simp
    then show ?thesis by blast
  next
    case False
    from passes_throughD[OF assms, of "Parsed YAML_MAPPING_END_EVENT # rest" h node False node CONF_KEY 0]
    obtain h1 n1 s1 i1 where
      "ConfYamlParse_loop (body @ Parsed YAML_MAPPING_END_EVENT # rest) h node False node CONF_KEY 0 =
       ConfYamlParse_loop (Parsed YAML_MAPPING_END_EVENT # rest) h1 node False n1 s1 i1"
      by blast
    with False have "ConfYamlParse_loop ?evs h parent inseq node state idx =
                     ConfYamlParse_loop rest h1 parent inseq node CONF_KEY idx"
      by simp
    then show ?thesis by blast
  qed
  then show "\<exists>h' node' state' idx'.
          ConfYamlParse_loop ?evs h parent inseq node state idx =
          ConfYamlParse_loop rest h' parent inseq node' state' idx' \<and> (inseq \<longrightarrow> node' = node)"
    by blast
qed

lemma passes_through_entries:
  assumes "\<And>k v. (k, v) \<in> set kvs \<Longrightarrow> passes_through (events_of v)"
  shows "passes_through (concat (map (\<lambda>(k, v). Parsed (YAML_SCALAR_EVENT k) # events_of v) kvs))"
proof (rule passes_through_concat)
  fix e
  assume "e \<in> set (map (\<lambda>(k, v). Parsed (YAML_SCALAR_EVENT k) # events_of v) kvs)"
  then obtain k v where kv: "(k, v) \<in> set kvs" and e: "e = Parsed (YAML_SCALAR_EVENT k) # events_of v"
    by auto
  from passes_through_append[OF passes_through_scalar[of k] assms[OF kv]] e
  show "passes_through e" by simp
qed

lemma passes_through_events_of: "passes_through (events_of y)"
proof (induction y)
  case (YScalar s)
  show ?case by (simp add: passes_through_scalar)
next
  case (YSeq xs)
  have "passes_through (concat (map events_of xs))"
    by (rule passes_through_concat) (use YSeq in auto)
  from passes_through_sequence[OF this] show ?case by simp
next
  case (YMap kvs)
  have "passes_through (concat (map (\<lambda>(k, v). Parsed (YAML_SCALAR_EVENT k) # events_of v) kvs))"
    by (rule passes_through_entries) (use YMap in force)
  from passes_through_mapping[OF this] show ?case by simp
qed

lemma passes_through_ignored: "ignored e \<Longrightarrow> passes_through [e]"
  unfolding passes_through_def by (cases e rule: ignored.cases) auto

lemma passes_through_version_1_1:
  "passes_through [Parsed (YAML_DOCUMENT_START_EVENT (Some (1, 1)))]"
  unfolding passes_through_def by auto

lemma passes_through_stream_start: "passes_through (stream_start docs)"
proof -
  have doc: "passes_through (Parsed (YAML_DOCUMENT_START_EVENT (Some (1, 1))) # events_of d
                               @ [Parsed YAML_DOCUMENT_END_EVENT])" for d
    using passes_through_append[OF passes_through_version_1_1
            passes_through_append[OF passes_through_events_of[of d]
              passes_through_ignored[of "Parsed YAML_DOCUMENT_END_EVENT"]]]
    by simp
  have "passes_through (concat (map (\<lambda>d. Parsed (YAML_DOCUMENT_START_EVENT (Some (1, 1))) # events_of d
                            @ [Parsed YAML_DOCUMENT_END_EVENT]) docs))"
    by (rule passes_through_concat) (use doc in auto)
  from passes_through_append[OF passes_through_ignored[of "Parsed YAML_STREAM_START_EVENT"] this]
  show ?thesis by (simp add: stream_start_def)
qed

lemma mapping_element_returns:
  assumes "passes_through body"
  shows "\<exists>h'. ConfYamlParse_loop (body @ Parsed YAML_MAPPING_END_EVENT # rest) h s False s CONF_KEY 0 =
              (Returned 0, rest, h')"
proof -
  from passes_throughD[OF assms, of "Parsed YAML_MAPPING_END_EVENT # rest" h s False s CONF_KEY 0]
  obtain h1 n1 s1 i1 where
    "ConfYamlParse_loop (body @ Parsed YAML_MAPPING_END_EVENT # rest) h s False s CONF_KEY 0 =
     ConfYamlParse_loop (Parsed YAML_MAPPING_END_EVENT # rest) h1 s False n1 s1 i1"
    by blast
  then show ?thesis by simp
qed

lemma sequence_element:
  assumes ns: "not_seq x" and p: "parent < length h"
  shows "\<exists>h' state'.
           ConfYamlParse_loop (events_of x @ rest) h parent True parent state idx =
           ConfYamlParse_loop rest h' parent True parent state' (idx + 1) \<and>
           touched {parent} h h' \<and>
           head (h' ! parent) = head (h ! parent) @ [length h] \<and>
           length h < length h' \<and>
           name (h' ! length h) = Some (decimal idx)"
proof (cases x)
  case (YScalar v)
  let ?h1 = "seq_scalar h parent idx (c_str v)"
  have "ConfYamlParse_loop (events_of x @ rest) h parent True parent state idx =
        ConfYamlParse_loop rest ?h1 parent True parent state (idx + 1)"
    using YScalar by simp
  moreover have "touched {parent} h ?h1" by (rule seq_scalar_touched)
  moreover have "head (?h1 ! parent) = head (h ! parent) @ [length h]"
    by (rule seq_scalar_head[OF p])
  moreover have "length h < length ?h1" by (simp add: seq_scalar_length)
  moreover have "name (?h1 ! length h) = Some (decimal idx)"
    by (simp add: seq_scalar_new[OF p])
  ultimately show ?thesis by blast
next
  case (YSeq xs)
  with ns show ?thesis by simp
next
  case (YMap kvs)
  let ?body = "concat (map (\<lambda>(k, v). Parsed (YAML_SCALAR_EVENT k) # events_of v) kvs)"
  have body: "passes_through ?body"
    by (rule passes_through_entries) (rule passes_through_events_of)
  obtain s h1 where S: "seq_mapping h parent idx = (s, h1)"
    by (cases "seq_mapping h parent idx") auto
  have s: "s = length h" using seq_mapping_fst[of h parent idx] S by simp
  have l1: "length h1 = Suc (length h)" using seq_mapping_length[of h parent idx] S by simp
  have T1: "touched {parent} h h1" using seq_mapping_touched[of parent h idx] S by simp
  have head1: "head (h1 ! parent) = head (h ! parent) @ [length h]"
    using seq_mapping_head[OF p, of idx] S by simp
  have name1: "name (h1 ! length h) = Some (decimal idx)"
    using seq_mapping_new[OF p, of idx] S by simp
  from mapping_element_returns[OF body, of rest h1 s]
  obtain h2 where
    I: "ConfYamlParse_loop (?body @ Parsed YAML_MAPPING_END_EVENT # rest) h1 s False s CONF_KEY 0 =
        (Returned 0, rest, h2)"
    by blast
  from loop_touched[OF I] have T2: "touched {s} h1 h2" by simp
  have T: "touched {parent} h h2"
    by (rule touched_trans[OF T1 T2]) (use s in auto)
  have "ConfYamlParse_loop (events_of x @ rest) h parent True parent state idx =
        ConfYamlParse_loop rest h2 parent True parent CONF_KEY (idx + 1)"
    using YMap S I by simp
  moreover have "head (h2 ! parent) = head (h ! parent) @ [length h]"
    using touched_cell[OF T2, of parent] p l1 s head1 by simp
  moreover have "length h < length h2" using touched_length[OF T2] l1 by simp
  moreover have "name (h2 ! length h) = Some (decimal idx)"
    using touched_name[OF T2, of "length h"] l1 name1 by simp
  ultimately show ?thesis using T by blast
qed

lemma sequence_elements:
  assumes "\<forall>x\<in>set xs. not_seq x" and "parent < length h"
  shows "\<exists>h' state' cs.
           ConfYamlParse_loop (concat (map events_of xs) @ rest) h parent True parent state idx =
           ConfYamlParse_loop rest h' parent True parent state' (idx + length xs) \<and>
           touched {parent} h h' \<and>
           head (h' ! parent) = head (h ! parent) @ cs \<and>
           child_names h' cs = map (\<lambda>i. Some (decimal i)) [idx..<idx + length xs] \<and>
           (\<forall>c\<in>set cs. c < length h')"
  using assms
proof (induction xs arbitrary: h state idx)
  case Nil
  have "ConfYamlParse_loop (concat (map events_of []) @ rest) h parent True parent state idx =
        ConfYamlParse_loop rest h parent True parent state (idx + length ([]::ynode list)) \<and>
        touched {parent} h h \<and> head (h ! parent) = head (h ! parent) @ [] \<and>
        child_names h [] = map (\<lambda>i. Some (decimal i)) [idx..<idx + length ([]::ynode list)] \<and>
        (\<forall>c\<in>set []. c < length h)"
    by (simp add: touched_refl child_names_def)
  then show ?case by blast
next
  case (Cons x xs)
  from Cons.prems have nx: "not_seq x" and nxs: "\<forall>x\<in>set xs. not_seq x" by simp_all
  let ?rest = "concat (map events_of xs) @ rest"
  from sequence_element[OF nx Cons.prems(2), of ?rest state idx]
  obtain h1 s1 where
    E1: "ConfYamlParse_loop (events_of x @ ?rest) h parent True parent state idx =
         ConfYamlParse_loop ?rest h1 parent True parent s1 (idx + 1)"
    and T1: "touched {parent} h h1"
    and H1: "head (h1 ! parent) = head (h ! parent) @ [length h]"
    and L1: "length h < length h1"
    and N1: "name (h1 ! length h) = Some (decimal idx)"
    by blast
  have p1: "parent < length h1" using Cons.prems(2) L1 by simp
  from Cons.IH[OF nxs p1, of s1 "idx + 1"]
  obtain h2 s2 cs where
    E2: "ConfYamlParse_loop ?rest h1 parent True parent s1 (idx + 1) =
         ConfYamlParse_loop rest h2 parent True parent s2 (idx + 1 + length xs)"
    and T2: "touched {parent} h1 h2"
    and H2: "head (h2 ! parent) = head (h1 ! parent) @ cs"
    and N2: "child_names h2 cs = map (\<lambda>i. Some (decimal i)) [idx + 1..<idx + 1 + length xs]"
    and B2: "\<forall>c\<in>set cs. c < length h2"
    by blast
  have T: "touched {parent} h h2" by (rule touched_trans[OF T1 T2]) simp
  have N: "name (h2 ! length h) = Some (decimal idx)"
    using touched_name[OF T2 L1] N1 by simp
  have "ConfYamlParse_loop (concat (map events_of (x # xs)) @ rest) h parent True parent state idx =
        ConfYamlParse_loop rest h2 parent True parent s2 (idx + length (x # xs))"
    using E1 E2 by simp
  moreover have "head (h2 ! parent) = head (h ! parent) @ (length h # cs)"
    using H1 H2 by simp
  moreover have "child_names h2 (length h # cs) =
                 map (\<lambda>i. Some (decimal i)) [idx..<idx + length (x # xs)]"
  proof -
    have U: "[idx..<idx + length (x # xs)] = idx # [idx + 1..<idx + 1 + length xs]"
      by (subst upt_rec) simp
    show ?thesis unfolding U using N N2 by (simp add: child_names_def)
  qed
  moreover have "\<forall>c\<in>set (length h # cs). c < length h2"
    using B2 L1 touched_length[OF T2] by simp
  ultimately show ?case using T by blast
qed

section \<open>The unit tests of the loader\<close>

text \<open>The documents of the unit tests at the end of \<^verbatim>\<open>conf-yaml-loader.c\<close>, loaded on an empty
  tree, give what the tests check.\<close>

lemmas eval_defs = ConfYamlLoadString_def ConfYamlLoadFile_def ConfYamlParse_def ConfInit_def
  c_str_def heap_defs decimal.simps digit_def named_vals_def child_names_def

lemma ConfYamlRuleFileTest:
  "fst (ConfYamlLoadString ConfInit 0 (stream_of rule_files_document)) = Returned 0 \<and>
   (\<exists>node.
      ConfGetNode (snd (ConfYamlLoadString ConfInit 0 (stream_of rule_files_document))) 0 [''rule-files'']
        = Some node \<and>
      named_vals (snd (ConfYamlLoadString ConfInit 0 (stream_of rule_files_document))) node =
        [(Some ''0'', Some ''netbios.rules''), (Some ''1'', Some ''x11.rules'')])"
  by (simp add: eval_defs stream_of_def rule_files_document_def)

lemma logging_output_load:
  "ConfYamlLoadString ConfInit 0 logging_output_events =
   (Returned 0,
    [\<lparr>name = None, val = None, is_seq = False, allow_override = False, head = [1]\<rparr>,
     \<lparr>name = Some ''logging'', val = None, is_seq = False, allow_override = False, head = [2]\<rparr>,
     \<lparr>name = Some ''output'', val = None, is_seq = False, allow_override = False, head = [3, 6]\<rparr>,
     \<lparr>name = Some ''0'', val = Some ''interface'', is_seq = True, allow_override = False, head = [4, 5]\<rparr>,
     \<lparr>name = Some ''interface'', val = Some ''console'', is_seq = False, allow_override = False, head = []\<rparr>,
     \<lparr>name = Some ''log-level'', val = Some ''error'', is_seq = False, allow_override = False, head = []\<rparr>,
     \<lparr>name = Some ''1'', val = Some ''interface'', is_seq = True, allow_override = False, head = [7, 8, 9]\<rparr>,
     \<lparr>name = Some ''interface'', val = Some ''syslog'', is_seq = False, allow_override = False, head = []\<rparr>,
     \<lparr>name = Some ''facility'', val = Some ''local4'', is_seq = False, allow_override = False, head = []\<rparr>,
     \<lparr>name = Some ''log-level'', val = Some ''info'', is_seq = False, allow_override = False, head = []\<rparr>])"
  by (simp add: eval_defs logging_output_events_def)

lemma ConfYamlBadYamlVersionTest:
  "fst (ConfYamlLoadString ConfInit 0
          (Parsed YAML_STREAM_START_EVENT # Parsed (YAML_DOCUMENT_START_EVENT (Some (9, 9)))
             # drop 2 logging_output_events)) = Returned (- 1)"
  by (simp add: eval_defs)

lemma libhtp_load:
  "ConfYamlLoadString ConfInit 0 (stream_of libhtp_document) =
     (Returned 0,
      [\<lparr>name = None, val = None, is_seq = False, allow_override = False, head = [1]\<rparr>,
      \<lparr>name = Some ''libhtp'', val = None, is_seq = False, allow_override = False, head = [2]\<rparr>,
      \<lparr>name = Some ''server-config'', val = None, is_seq = False, allow_override = False, head = [3, 13]\<rparr>,
      \<lparr>name = Some ''0'', val = Some ''apache-php'', is_seq = True, allow_override = False, head = [4]\<rparr>,
      \<lparr>name = Some ''apache-php'', val = None, is_seq = False, allow_override = False, head = [5, 7, 10]\<rparr>,
      \<lparr>name = Some ''address'', val = None, is_seq = False, allow_override = False, head = [6]\<rparr>,
      \<lparr>name = Some ''0'', val = Some ''192.168.1.0/24'', is_seq = False, allow_override = False, head = []\<rparr>,
      \<lparr>name = Some ''personality'', val = None, is_seq = False, allow_override = False, head = [8, 9]\<rparr>,
      \<lparr>name = Some ''0'', val = Some ''Apache_2_2'', is_seq = False, allow_override = False, head = []\<rparr>,
      \<lparr>name = Some ''1'', val = Some ''PHP_5_3'', is_seq = False, allow_override = False, head = []\<rparr>,
      \<lparr>name = Some ''path-parsing'', val = None, is_seq = False, allow_override = False, head = [11, 12]\<rparr>,
      \<lparr>name = Some ''0'', val = Some ''compress_separators'', is_seq = False, allow_override = False, head = []\<rparr>,
      \<lparr>name = Some ''1'', val = Some ''lowercase'', is_seq = False, allow_override = False, head = []\<rparr>,
      \<lparr>name = Some ''1'', val = Some ''iis-php'', is_seq = True, allow_override = False, head = [14]\<rparr>,
      \<lparr>name = Some ''iis-php'', val = None, is_seq = False, allow_override = False, head = [15, 17, 20]\<rparr>,
      \<lparr>name = Some ''address'', val = None, is_seq = False, allow_override = False, head = [16]\<rparr>,
      \<lparr>name = Some ''0'', val = Some ''192.168.0.0/24'', is_seq = False, allow_override = False, head = []\<rparr>,
      \<lparr>name = Some ''personality'', val = None, is_seq = False, allow_override = False, head = [18, 19]\<rparr>,
      \<lparr>name = Some ''0'', val = Some ''IIS_7_0'', is_seq = False, allow_override = False, head = []\<rparr>,
      \<lparr>name = Some ''1'', val = Some ''PHP_5_3'', is_seq = False, allow_override = False, head = []\<rparr>,
      \<lparr>name = Some ''path-parsing'', val = None, is_seq = False, allow_override = False, head = [21]\<rparr>,
      \<lparr>name = Some ''0'', val = Some ''compress_separators'', is_seq = False, allow_override = False, head = []\<rparr>])"
  by code_simp

lemma ConfYamlSecondLevelSequenceTest:
  "fst (ConfYamlLoadString ConfInit 0 (stream_of libhtp_document)) = Returned 0 \<and>
   (\<exists>outputs n0 n1 a.
      ConfGetNode (snd (ConfYamlLoadString ConfInit 0 (stream_of libhtp_document))) 0
        [''libhtp'', ''server-config''] = Some outputs \<and>
      hd (head (snd (ConfYamlLoadString ConfInit 0 (stream_of libhtp_document)) ! outputs)) = n0 \<and>
      name (snd (ConfYamlLoadString ConfInit 0 (stream_of libhtp_document)) ! n0) = Some ''0'' \<and>
      hd (head (snd (ConfYamlLoadString ConfInit 0 (stream_of libhtp_document)) ! n0)) = n1 \<and>
      name (snd (ConfYamlLoadString ConfInit 0 (stream_of libhtp_document)) ! n1) = Some ''apache-php'' \<and>
      ConfNodeLookupChild (snd (ConfYamlLoadString ConfInit 0 (stream_of libhtp_document))) n1 ''address''
        = Some a \<and>
      named_vals (snd (ConfYamlLoadString ConfInit 0 (stream_of libhtp_document))) a =
        [(Some ''0'', Some ''192.168.1.0/24'')])"
  by (simp add: libhtp_load ConfNodeLookupChild_def named_vals_def)

section \<open>Nested mappings\<close>

text \<open>
  Claim C1, as amended. On a \<^verbatim>\<open>MAPPING_START\<close> event outside a sequence the builder calls
  itself on the cursor \<^verbatim>\<open>node\<close> (the child made for the last key, or the parent when this
  invocation has made no child yet), not in a sequence; when that call returns 0, the
  loop goes on after it in the key phase, with parent, cursor and counter as they were.
\<close>

theorem mapping_start_recurses_on_cursor:
  assumes "ConfYamlParse parser h node False = (Returned 0, parser', h')"
  shows "ConfYamlParse_loop (Parsed YAML_MAPPING_START_EVENT # parser) h parent False node state seq_idx =
         ConfYamlParse_loop parser' h' parent False node CONF_KEY seq_idx"
  using assms by (simp add: ConfYamlParse_def)

theorem mapping_start_recurses_on_cursor_witness:
  "ConfYamlParse output_entry_events logging_key_tree 1 False =
     (Returned 0, [Parsed YAML_STREAM_END_EVENT],
      [\<lparr>name = None, val = None, is_seq = False, allow_override = False, head = [1]\<rparr>,
       \<lparr>name = Some ''logging'', val = None, is_seq = False, allow_override = False, head = [2]\<rparr>,
       \<lparr>name = Some ''output'', val = Some ''console'', is_seq = False, allow_override = False, head = []\<rparr>]) \<and>
   ConfYamlParse_loop (Parsed YAML_MAPPING_START_EVENT # output_entry_events)
       logging_key_tree 0 False 1 CONF_VAL 0 =
     (Returned 0, [],
      [\<lparr>name = None, val = None, is_seq = False, allow_override = False, head = [1]\<rparr>,
       \<lparr>name = Some ''logging'', val = None, is_seq = False, allow_override = False, head = [2]\<rparr>,
       \<lparr>name = Some ''output'', val = Some ''console'', is_seq = False, allow_override = False, head = []\<rparr>])"
proof -
  have inner: "ConfYamlParse output_entry_events logging_key_tree 1 False =
     (Returned 0, [Parsed YAML_STREAM_END_EVENT],
      [\<lparr>name = None, val = None, is_seq = False, allow_override = False, head = [1]\<rparr>,
       \<lparr>name = Some ''logging'', val = None, is_seq = False, allow_override = False, head = [2]\<rparr>,
       \<lparr>name = Some ''output'', val = Some ''console'', is_seq = False, allow_override = False, head = []\<rparr>])"
    by (simp add: eval_defs logging_key_tree_def output_entry_events_def)
  from mapping_start_recurses_on_cursor[OF inner, of 0 CONF_VAL 0] inner
  show ?thesis by simp
qed

text \<open>
  Claim C1 as stated fails: with the root as parent and the node of the key \<open>logging\<close> as
  cursor, the result is not the one of a recursion on the parent (the entry \<open>output\<close>
  becomes a child of \<open>logging\<close>, not of the root).
\<close>

theorem mapping_start_not_on_parent:
  "ConfYamlParse_loop (Parsed YAML_MAPPING_START_EVENT # output_entry_events)
       logging_key_tree 0 False 1 CONF_VAL 0 \<noteq>
     (case ConfYamlParse output_entry_events logging_key_tree 0 False of
        (OutOfEvents, parser', h') \<Rightarrow> (OutOfEvents, parser', h')
      | (Returned r, parser', h') \<Rightarrow> ConfYamlParse_loop parser' h' 0 False 1 CONF_KEY 0)"
  by (simp add: eval_defs logging_key_tree_def output_entry_events_def)

section \<open>Errors inside a mapping\<close>

text \<open>
  Claim C2 asks that a failure of any recursive invocation reaches the entry point, which
  then returns -1. The code does not do that for an invocation started by a
  \<^verbatim>\<open>MAPPING_START\<close>: here the parser fails on the value of the first key of the top-level
  mapping. The invocation for the mapping (the stream after its \<^verbatim>\<open>MAPPING_START\<close>) returns
  -1, but the outermost invocation called it at line 138 without looking at the result: it
  asks the parser for the next event, so the load does not return -1 there, and it returns
  0 as soon as the parser delivers a \<^verbatim>\<open>STREAM_END\<close>. (The call at line 119, for a sequence,
  does check the result.)
\<close>

theorem mapping_error_not_propagated:
  "ConfYamlParse (drop 3 broken_value_events) ConfInit 0 False =
     (Returned (- 1), [],
      [\<lparr>name = None, val = None, is_seq = False, allow_override = False, head = [1]\<rparr>,
       \<lparr>name = Some ''foo'', val = None, is_seq = False, allow_override = False, head = []\<rparr>]) \<and>
   fst (ConfYamlLoadString ConfInit 0 broken_value_events) = OutOfEvents \<and>
   fst (ConfYamlLoadString ConfInit 0 (broken_value_events @ [Parsed YAML_STREAM_END_EVENT])) = Returned 0 \<and>
   fst (ConfYamlLoadFile ConfInit 0 (Some (broken_value_events @ [Parsed YAML_STREAM_END_EVENT]))) = Returned 0"
  by (simp add: eval_defs broken_value_events_def)

section \<open>A key that may not be overridden\<close>

text \<open>
  Claim C3 asks that the value of a key that may not be overridden is dropped and leaves
  the tree as it is. The code does not do that: the tree before the load has the one child
  \<open>foo = seed\<close>, which may not be overridden; the document \<^verbatim>\<open>bar: one\<close>,
  \<^verbatim>\<open>foo: replacement\<close> is loaded. No node is made for the key \<open>foo\<close>, but its value is not
  dropped: it replaces the value of \<open>bar\<close>.
\<close>

theorem locked_key_value_overwrites_sibling:
  "named_vals seeded_foo 0 = [(Some ''foo'', Some ''seed'')] \<and>
   fst (ConfYamlLoadString seeded_foo 0 bar_foo_events) = Returned 0 \<and>
   named_vals (snd (ConfYamlLoadString seeded_foo 0 bar_foo_events)) 0 =
     [(Some ''foo'', Some ''seed''), (Some ''bar'', Some ''replacement'')]"
  by (simp add: eval_defs seeded_foo_def bar_foo_events_def)

section \<open>Seeds that may not be overridden\<close>




section \<open>The children of a sequence\<close>

text \<open>
  Claim C5, as amended. A sequence of \<open>k\<close> elements, each a scalar or a mapping (of
  scalar keys and any values), read in sequence mode on the node \<open>parent\<close>: the invocation
  returns 0 at the end of the sequence, and the child queue of \<open>parent\<close> is the one before
  followed by exactly \<open>k\<close> new children, whose names are the decimal strings of \<open>0\<close> to
  \<open>k - 1\<close> in this order (none for the empty sequence).
\<close>

theorem sequence_children_indexed:
  assumes "\<forall>x\<in>set xs. not_seq x" and "parent < length h"
  shows "\<exists>h' cs.
           ConfYamlParse (concat (map events_of xs) @ Parsed YAML_SEQUENCE_END_EVENT # rest) h parent True
             = (Returned 0, rest, h') \<and>
           head (h' ! parent) = head (h ! parent) @ cs \<and>
           length cs = length xs \<and>
           child_names h' cs = map (\<lambda>i. Some (decimal i)) [0..<length xs]"
proof -
  from sequence_elements[OF assms, of "Parsed YAML_SEQUENCE_END_EVENT # rest" CONF_KEY 0]
  obtain h' state' cs where
    E: "ConfYamlParse_loop (concat (map events_of xs) @ Parsed YAML_SEQUENCE_END_EVENT # rest)
          h parent True parent CONF_KEY 0 =
        ConfYamlParse_loop (Parsed YAML_SEQUENCE_END_EVENT # rest) h' parent True parent state' (0 + length xs)"
    and H: "head (h' ! parent) = head (h ! parent) @ cs"
    and N: "child_names h' cs = map (\<lambda>i. Some (decimal i)) [0..<0 + length xs]"
    by blast
  from N have "length (child_names h' cs) = length xs" by simp
  then have "length cs = length xs" by (simp add: child_names_def)
  with E H N show ?thesis by (auto simp: ConfYamlParse_def)
qed

theorem sequence_children_indexed_witness:
  "not_seq (logging_outputs ! 0) \<and> not_seq (logging_outputs ! 1) \<and> length logging_outputs = 2 \<and>
   (1::nat) < length output_key_tree \<and>
   fst (ConfYamlParse (concat (map events_of logging_outputs) @ [Parsed YAML_SEQUENCE_END_EVENT])
          output_key_tree 1 True) = Returned 0 \<and>
   head (snd (snd (ConfYamlParse (concat (map events_of logging_outputs) @ [Parsed YAML_SEQUENCE_END_EVENT])
          output_key_tree 1 True)) ! 1) = [2, 5] \<and>
   child_names (snd (snd (ConfYamlParse (concat (map events_of logging_outputs) @ [Parsed YAML_SEQUENCE_END_EVENT])
          output_key_tree 1 True))) [2, 5] = [Some ''0'', Some ''1'']"
  using sequence_children_indexed[of logging_outputs 1 output_key_tree "[]"]
  by (simp add: eval_defs logging_outputs_def output_key_tree_def)

text \<open>
  Claim C5 as stated fails when an element is itself a sequence: for \<^verbatim>\<open>[a, [b, c]]\<close>, a
  sequence of two elements, the parent gets three children, named \<open>0\<close>, \<open>0\<close> and \<open>1\<close>.
\<close>

theorem nested_sequence_children_not_indexed:
  "length nested_elements = 2 \<and>
   fst (ConfYamlParse (concat (map events_of nested_elements) @ [Parsed YAML_SEQUENCE_END_EVENT])
          output_key_tree 1 True) = Returned 0 \<and>
   head (snd (snd (ConfYamlParse (concat (map events_of nested_elements) @ [Parsed YAML_SEQUENCE_END_EVENT])
          output_key_tree 1 True)) ! 1) = [2, 3, 4] \<and>
   child_names (snd (snd (ConfYamlParse (concat (map events_of nested_elements) @ [Parsed YAML_SEQUENCE_END_EVENT])
          output_key_tree 1 True))) [2, 3, 4] = [Some ''0'', Some ''0'', Some ''1'']"
  by (simp add: eval_defs nested_elements_def output_key_tree_def)

section \<open>Mappings as elements of a sequence\<close>

text \<open>
  Claim C6, as amended. In sequence mode, a \<^verbatim>\<open>MAPPING_START\<close> followed by the scalar \<open>k\<close>
  (an element that is a mapping whose first key is \<open>k\<close>) makes a new node, at the next
  free address, that is linked under the node the sequence is built on and named by the
  counter; when the invocation is over, however it ends, that node has \<^verbatim>\<open>is_seq\<close> set and
  its value is \<open>k\<close> as the C string the loader reads: the text of \<open>k\<close> up to its first
  NUL byte, which is \<open>k\<close> itself when \<open>k\<close> has no NUL byte.
\<close>

theorem sequence_mapping_element_val:
  assumes run: "ConfYamlParse_loop
                  (Parsed YAML_MAPPING_START_EVENT # Parsed (YAML_SCALAR_EVENT k) # parser)
                  h parent True node state seq_idx = (ret, parser', h')"
    and node: "node < length h" and parent: "parent < length h"
  shows "length h \<in> set (head (h' ! node)) \<and>
         name (h' ! length h) = Some (decimal seq_idx) \<and>
         is_seq (h' ! length h) \<and>
         val (h' ! length h) = Some (c_str k) \<and>
         (CHR 0x00 \<notin> set k \<longrightarrow> val (h' ! length h) = Some k)"
proof -
  let ?s = "length h"
  obtain s h1 where S: "seq_mapping h node seq_idx = (s, h1)"
    by (cases "seq_mapping h node seq_idx") auto
  have s: "s = ?s" using seq_mapping_fst[of h node seq_idx] S by simp
  have l1: "length h1 = Suc ?s" using seq_mapping_length[of h node seq_idx] S by simp
  have new1: "h1 ! ?s = \<lparr>name = Some (decimal seq_idx), val = None, is_seq = True,
                          allow_override = False, head = []\<rparr>"
    using seq_mapping_new[OF node, of seq_idx] S by simp
  have head1: "?s \<in> set (head (h1 ! node))"
    using seq_mapping_head[OF node, of seq_idx] S by simp
  have look: "ConfNodeLookupChild h1 ?s (c_str k) = None"
    by (rule lookup_no_children) (simp add: new1)
  obtain n h2 where N: "key_node h1 ?s (c_str k) = (n, h2)" by (cases "key_node h1 ?s (c_str k)") auto
  have n: "n = Suc ?s" using key_node_fst[of h1 ?s "c_str k"] N l1 by simp
  have l2: "length h2 = Suc (Suc ?s)" using key_node_length[of h1 ?s "c_str k"] N l1 by simp
  have T12: "touched {?s} h1 h2" using key_node_touched[of ?s h1 "c_str k"] N by simp
  have val2: "val (h2 ! ?s) = Some (c_str k)"
    using key_node_first_key[of ?s h1 "c_str k"] N l1 new1 by simp
  obtain r3 p3 h3 where E: "ConfYamlParse_loop parser h2 ?s False n CONF_VAL 0 = (r3, p3, h3)"
    by (cases "ConfYamlParse_loop parser h2 ?s False n CONF_VAL 0") auto
  from loop_touched[OF E] have T23: "touched {?s, n} h2 h3" .
  have val3: "val (h3 ! ?s) = Some (c_str k)"
    using loop_parent_val[of n ?s h2 parser False CONF_VAL 0] n l2 val2 E by simp
  have T13: "touched {?s} h1 h3"
    by (rule touched_trans[OF T12 T23]) (use n l1 in auto)
  have l3: "Suc ?s \<le> length h3" using touched_length[OF T13] l1 by simp
  have name3: "name (h3 ! ?s) = Some (decimal seq_idx)"
    using touched_name[OF T13, of ?s] l1 new1 by simp
  have seq3: "is_seq (h3 ! ?s)"
    using touched_is_seq[OF T13, of ?s] l1 new1 by simp
  have ov3: "\<not> allow_override (h3 ! ?s)"
    using touched_allow_override[OF T13, of ?s] l1 new1 by simp
  have head3: "?s \<in> set (head (h3 ! node))"
    using touched_cell[OF T13, of node] node l1 head1 by simp
  have inner: "ConfYamlParse_loop (Parsed (YAML_SCALAR_EVENT k) # parser) h1 ?s False ?s CONF_KEY 0
                 = (r3, p3, h3)"
    using look N E by simp
  show ?thesis
  proof (cases r3)
    case OutOfEvents
    with run S s inner have "h' = h3" by simp
    with head3 name3 seq3 val3 show ?thesis by (simp add: c_str_no_nul)
  next
    case (Returned x)
    with run S s inner
    have C: "ConfYamlParse_loop p3 h3 parent True node CONF_KEY (seq_idx + 1) = (ret, parser', h')"
      by simp
    from loop_touched[OF C] have T: "touched {parent, node} h3 h'" .
    have cell: "h' ! ?s = h3 ! ?s"
      using touched_cell[OF T, of ?s] l3 node parent by simp
    have "?s \<in> set (head (h' ! node))"
      using touched_child[OF T _ _ ov3 head3] l3 node by simp
    with cell name3 seq3 val3 show ?thesis by (simp add: c_str_no_nul)
  qed
qed

theorem sequence_mapping_element_val_witness:
  "ConfYamlParse console_element_events output_key_tree 1 True =
     (Returned 0, [],
      [\<lparr>name = None, val = None, is_seq = False, allow_override = False, head = [1]\<rparr>,
       \<lparr>name = Some ''output'', val = None, is_seq = False, allow_override = False, head = [2]\<rparr>,
       \<lparr>name = Some ''0'', val = Some ''interface'', is_seq = True, allow_override = False, head = [3]\<rparr>,
       \<lparr>name = Some ''interface'', val = Some ''console'', is_seq = False, allow_override = False, head = []\<rparr>]) \<and>
   (1::nat) < length output_key_tree \<and>
   2 \<in> set (head (snd (snd (ConfYamlParse console_element_events output_key_tree 1 True)) ! 1)) \<and>
   name (snd (snd (ConfYamlParse console_element_events output_key_tree 1 True)) ! 2) = Some (decimal 0) \<and>
   is_seq (snd (snd (ConfYamlParse console_element_events output_key_tree 1 True)) ! 2) \<and>
   val (snd (snd (ConfYamlParse console_element_events output_key_tree 1 True)) ! 2) = Some ''interface''"
proof -
  have run: "ConfYamlParse_loop
      (Parsed YAML_MAPPING_START_EVENT # Parsed (YAML_SCALAR_EVENT ''interface'')
         # map Parsed [YAML_SCALAR_EVENT ''console'', YAML_MAPPING_END_EVENT, YAML_SEQUENCE_END_EVENT])
      output_key_tree 1 True 1 CONF_KEY 0 =
     (Returned 0, [],
      [\<lparr>name = None, val = None, is_seq = False, allow_override = False, head = [1]\<rparr>,
       \<lparr>name = Some ''output'', val = None, is_seq = False, allow_override = False, head = [2]\<rparr>,
       \<lparr>name = Some ''0'', val = Some ''interface'', is_seq = True, allow_override = False, head = [3]\<rparr>,
       \<lparr>name = Some ''interface'', val = Some ''console'', is_seq = False, allow_override = False, head = []\<rparr>])"
    by (simp add: eval_defs output_key_tree_def)
  have len: "(1::nat) < length output_key_tree" by (simp add: output_key_tree_def)
  have two: "length output_key_tree = 2" by (simp add: output_key_tree_def)
  from sequence_mapping_element_val[OF run len len] run len two
  show ?thesis by (simp add: ConfYamlParse_def console_element_events_def)
qed

text \<open>
  Claim C6 as stated fails for a key with a NUL byte: for the element \<^verbatim>\<open>- "a\0b": console\<close>
  the value of the element node is \<open>a\<close>, not the key.
\<close>

theorem sequence_mapping_element_val_nul:
  "fst (ConfYamlParse nul_key_element_events output_key_tree 1 True) = Returned 0 \<and>
   head (snd (snd (ConfYamlParse nul_key_element_events output_key_tree 1 True)) ! 1) = [2] \<and>
   is_seq (snd (snd (ConfYamlParse nul_key_element_events output_key_tree 1 True)) ! 2) \<and>
   val (snd (snd (ConfYamlParse nul_key_element_events output_key_tree 1 True)) ! 2) = Some ''a'' \<and>
   val (snd (snd (ConfYamlParse nul_key_element_events output_key_tree 1 True)) ! 2)
     \<noteq> Some [CHR ''a'', CHR 0x00, CHR ''b'']"
  by (simp add: eval_defs nul_key_element_events_def output_key_tree_def)

section \<open>The unit test on logging outputs\<close>

text \<open>
  Claim C7. Loading the document of \<^verbatim>\<open>ConfYamlLoggingOutputTest\<close> on an empty tree returns
  0; the node at \<open>logging.output\<close> has exactly two children, named \<open>0\<close> and \<open>1\<close>; the
  children of \<open>0\<close> are \<open>interface = console\<close> and \<open>log-level = error\<close>, in this order, and
  the children of \<open>1\<close> are \<open>interface = syslog\<close>, \<open>facility = local4\<close> and
  \<open>log-level = info\<close>, in this order.
\<close>

theorem logging_output_tree:
  "fst (ConfYamlLoadString ConfInit 0 logging_output_events) = Returned 0 \<and>
   (\<exists>outputs o0 o1.
      ConfGetNode (snd (ConfYamlLoadString ConfInit 0 logging_output_events)) 0 [''logging'', ''output'']
        = Some outputs \<and>
      head (snd (ConfYamlLoadString ConfInit 0 logging_output_events) ! outputs) = [o0, o1] \<and>
      name (snd (ConfYamlLoadString ConfInit 0 logging_output_events) ! o0) = Some ''0'' \<and>
      name (snd (ConfYamlLoadString ConfInit 0 logging_output_events) ! o1) = Some ''1'' \<and>
      named_vals (snd (ConfYamlLoadString ConfInit 0 logging_output_events)) o0 =
        [(Some ''interface'', Some ''console''), (Some ''log-level'', Some ''error'')] \<and>
      named_vals (snd (ConfYamlLoadString ConfInit 0 logging_output_events)) o1 =
        [(Some ''interface'', Some ''syslog''), (Some ''facility'', Some ''local4''),
         (Some ''log-level'', Some ''info'')])"
  by (simp add: logging_output_load ConfNodeLookupChild_def named_vals_def)

section \<open>The document prologue\<close>

text \<open>
  Claim C8. A \<^verbatim>\<open>DOCUMENT_START\<close> event without a version directive, or with a directive
  other than 1.1, makes the invocation that reads it return -1, whatever its state. When
  the document is the first of the stream, \<^verbatim>\<open>ConfYamlLoadString\<close> and \<^verbatim>\<open>ConfYamlLoadFile\<close>
  return -1 and the tree is as it was; when well-formed documents with the directive 1.1
  come before it in the stream, the load returns -1 as well. With the directive 1.1 the
  loop goes on to the next event in the same state, and the load is the load of the rest of
  the stream.
\<close>

theorem document_start_version_check:
  assumes "ver \<noteq> Some (1, 1)"
  shows "ConfYamlParse_loop (Parsed (YAML_DOCUMENT_START_EVENT ver) # parser) h parent inseq node state seq_idx
           = (Returned (- 1), parser, h) \<and>
         ConfYamlLoadString h root (Parsed YAML_STREAM_START_EVENT # Parsed (YAML_DOCUMENT_START_EVENT ver) # parser)
           = (Returned (- 1), h) \<and>
         ConfYamlLoadFile h root (Some (Parsed YAML_STREAM_START_EVENT # Parsed (YAML_DOCUMENT_START_EVENT ver) # parser))
           = (Returned (- 1), h) \<and>
         fst (ConfYamlLoadString h root (stream_start docs @ Parsed (YAML_DOCUMENT_START_EVENT ver) # parser))
           = Returned (- 1) \<and>
         fst (ConfYamlLoadFile h root (Some (stream_start docs @ Parsed (YAML_DOCUMENT_START_EVENT ver) # parser)))
           = Returned (- 1) \<and>
         ConfYamlParse_loop (Parsed (YAML_DOCUMENT_START_EVENT (Some (1, 1))) # parser) h parent inseq node state seq_idx
           = ConfYamlParse_loop parser h parent inseq node state seq_idx \<and>
         ConfYamlLoadString h root (Parsed YAML_STREAM_START_EVENT # Parsed (YAML_DOCUMENT_START_EVENT (Some (1, 1))) # parser)
           = (case ConfYamlParse parser h root False of (ret, parser', h') \<Rightarrow> (ret, h'))"
proof -
  have bad: "ConfYamlParse_loop (Parsed (YAML_DOCUMENT_START_EVENT ver) # p) g a b c d e
               = (Returned (- 1), p, g)" for p g a b c d e
    using assms by (auto split: option.splits)
  from passes_throughD[OF passes_through_stream_start,
      of docs "Parsed (YAML_DOCUMENT_START_EVENT ver) # parser" h root False root CONF_KEY 0]
  obtain h' n' s' i' where
    "ConfYamlParse_loop (stream_start docs @ Parsed (YAML_DOCUMENT_START_EVENT ver) # parser)
       h root False root CONF_KEY 0 =
     ConfYamlParse_loop (Parsed (YAML_DOCUMENT_START_EVENT ver) # parser) h' root False n' s' i'"
    by blast
  then have later: "ConfYamlParse_loop (stream_start docs @ Parsed (YAML_DOCUMENT_START_EVENT ver) # parser)
       h root False root CONF_KEY 0 = (Returned (- 1), parser, h')"
    by (simp only: bad)
  show ?thesis
    using bad later
    by (simp add: ConfYamlLoadString_def ConfYamlLoadFile_def ConfYamlParse_def)
qed

theorem document_start_version_check_witness:
  "ConfYamlLoadString ConfInit 0
     [Parsed YAML_STREAM_START_EVENT, Parsed (YAML_DOCUMENT_START_EVENT (Some (9, 9))),
      Parsed YAML_MAPPING_START_EVENT] = (Returned (- 1), ConfInit) \<and>
   ConfYamlLoadString ConfInit 0
     [Parsed YAML_STREAM_START_EVENT, Parsed (YAML_DOCUMENT_START_EVENT None),
      Parsed YAML_MAPPING_START_EVENT] = (Returned (- 1), ConfInit) \<and>
   fst (ConfYamlLoadString ConfInit 0
     (stream_start [rule_files_document] @
        [Parsed (YAML_DOCUMENT_START_EVENT (Some (1, 2))), Parsed YAML_MAPPING_START_EVENT]))
     = Returned (- 1) \<and>
   ConfYamlLoadString ConfInit 0
     [Parsed YAML_STREAM_START_EVENT, Parsed (YAML_DOCUMENT_START_EVENT (Some (1, 1))),
      Parsed YAML_STREAM_END_EVENT] = (Returned 0, ConfInit)"
  using document_start_version_check[where ver = "Some (9, 9)"
      and parser = "[Parsed YAML_MAPPING_START_EVENT]" and h = ConfInit and root = 0]
    document_start_version_check[where ver = None
      and parser = "[Parsed YAML_MAPPING_START_EVENT]" and h = ConfInit and root = 0]
    document_start_version_check[where ver = "Some (1, 2)"
      and parser = "[Parsed YAML_MAPPING_START_EVENT]" and h = ConfInit and root = 0
      and docs = "[rule_files_document]"]
    document_start_version_check[where ver = None
      and parser = "[Parsed YAML_STREAM_END_EVENT]" and h = ConfInit and root = 0
      and parent = 0 and inseq = False and node = 0 and state = CONF_KEY and seq_idx = 0]
  by (simp add: ConfYamlParse_def)

section \<open>Where the value of a skipped key goes\<close>

text \<open>
  Claim C9, as amended. When a mapping key finds a child of the parent that is not
  \<^verbatim>\<open>allow_override\<close>, no node is created and the scalar \<open>v\<close> that follows is stored as the
  \<^verbatim>\<open>val\<close> of the node the cursor \<^verbatim>\<open>node\<close> points to, replacing what was there; the phase is
  back at key. What is stored is \<open>v\<close> as the C string the loader reads: the text of \<open>v\<close>
  up to its first NUL byte, which is \<open>v\<close> itself when \<open>v\<close> has no NUL byte. In an
  invocation that has made no child yet the cursor is the parent (the root of the tree for
  the outermost invocation); after an entry \<open>k0: v0\<close> whose key made a child, the cursor
  is that child, and its value \<open>v0\<close> is replaced.
\<close>

theorem locked_key_value_goes_to_cursor:
  assumes "ConfNodeLookupChild h parent (c_str k) = Some n0" and "\<not> allow_override (h ! n0)"
  shows "ConfYamlParse_loop (Parsed (YAML_SCALAR_EVENT k) # Parsed (YAML_SCALAR_EVENT v) # parser)
           h parent False node CONF_KEY seq_idx
         = ConfYamlParse_loop parser (set_val h node (c_str v)) parent False node CONF_KEY seq_idx \<and>
         ConfYamlParse (Parsed (YAML_SCALAR_EVENT k) # Parsed (YAML_SCALAR_EVENT v) # parser)
           h parent False
         = ConfYamlParse_loop parser (set_val h parent (c_str v)) parent False parent CONF_KEY 0 \<and>
         (node < length h \<longrightarrow> set_val h node (c_str v) ! node = (h ! node)\<lparr>val := Some (c_str v)\<rparr>) \<and>
         (CHR 0x00 \<notin> set v \<longrightarrow> set_val h node (c_str v) = set_val h node v) \<and>
         (ConfNodeLookupChild h0 parent (c_str k0) = None \<longrightarrow>
          h = set_val (snd (key_node h0 parent (c_str k0))) (length h0) (c_str v0) \<longrightarrow>
            ConfYamlParse_loop
              (Parsed (YAML_SCALAR_EVENT k0) # Parsed (YAML_SCALAR_EVENT v0)
                 # Parsed (YAML_SCALAR_EVENT k) # Parsed (YAML_SCALAR_EVENT v) # parser)
              h0 parent False node0 CONF_KEY seq_idx
            = ConfYamlParse_loop parser (set_val h (length h0) (c_str v)) parent False (length h0)
                CONF_KEY seq_idx)"
proof -
  have tail: "ConfYamlParse_loop (Parsed (YAML_SCALAR_EVENT k) # Parsed (YAML_SCALAR_EVENT v) # parser)
           h parent False c CONF_KEY seq_idx
         = ConfYamlParse_loop parser (set_val h c (c_str v)) parent False c CONF_KEY seq_idx" for c
    using assms by simp
  have "ConfYamlParse_loop
          (Parsed (YAML_SCALAR_EVENT k0) # Parsed (YAML_SCALAR_EVENT v0)
             # Parsed (YAML_SCALAR_EVENT k) # Parsed (YAML_SCALAR_EVENT v) # parser)
          h0 parent False node0 CONF_KEY seq_idx
        = ConfYamlParse_loop parser (set_val h (length h0) (c_str v)) parent False (length h0)
            CONF_KEY seq_idx"
    if none: "ConfNodeLookupChild h0 parent (c_str k0) = None"
      and h: "h = set_val (snd (key_node h0 parent (c_str k0))) (length h0) (c_str v0)"
  proof -
    obtain c h1 where N: "key_node h0 parent (c_str k0) = (c, h1)"
      by (cases "key_node h0 parent (c_str k0)") auto
    have c: "c = length h0" using key_node_fst[of h0 parent "c_str k0"] N by simp
    have h': "h = set_val h1 c (c_str v0)" using h N c by simp
    have "ConfYamlParse_loop
          (Parsed (YAML_SCALAR_EVENT k0) # Parsed (YAML_SCALAR_EVENT v0)
             # Parsed (YAML_SCALAR_EVENT k) # Parsed (YAML_SCALAR_EVENT v) # parser)
          h0 parent False node0 CONF_KEY seq_idx
        = ConfYamlParse_loop (Parsed (YAML_SCALAR_EVENT k) # Parsed (YAML_SCALAR_EVENT v) # parser)
            h parent False c CONF_KEY seq_idx"
      using none N h' by simp
    with tail[of c] c show ?thesis by simp
  qed
  with assms show ?thesis by (simp add: ConfYamlParse_def set_val_def c_str_no_nul)
qed

theorem locked_key_value_goes_to_cursor_witness:
  "ConfNodeLookupChild seeded_foo 0 (c_str ''foo'') = Some 1 \<and> \<not> allow_override (seeded_foo ! 1) \<and>
   val (seeded_foo ! 0) = None \<and>
   ConfYamlLoadString seeded_foo 0 foo_replacement_events =
     (Returned 0,
      [\<lparr>name = None, val = Some ''replacement'', is_seq = False, allow_override = False, head = [1]\<rparr>,
       \<lparr>name = Some ''foo'', val = Some ''seed'', is_seq = False, allow_override = False, head = []\<rparr>]) \<and>
   ConfNodeLookupChild seeded_foo 0 (c_str ''bar'') = None \<and>
   ConfYamlParse
     (map Parsed [YAML_SCALAR_EVENT ''bar'', YAML_SCALAR_EVENT ''one'',
                  YAML_SCALAR_EVENT ''foo'', YAML_SCALAR_EVENT ''replacement'',
                  YAML_MAPPING_END_EVENT])
     seeded_foo 0 False =
     (Returned 0, [],
      [\<lparr>name = None, val = None, is_seq = False, allow_override = False, head = [1, 2]\<rparr>,
       \<lparr>name = Some ''foo'', val = Some ''seed'', is_seq = False, allow_override = False, head = []\<rparr>,
       \<lparr>name = Some ''bar'', val = Some ''replacement'', is_seq = False, allow_override = False, head = []\<rparr>])"
  using locked_key_value_goes_to_cursor[where h = seeded_foo and parent = 0 and k = "''foo''"
      and ?n0.0 = 1 and v = "''replacement''"
      and parser = "map Parsed [YAML_MAPPING_END_EVENT, YAML_DOCUMENT_END_EVENT, YAML_STREAM_END_EVENT]"
      and node = 0 and seq_idx = 0]
    locked_key_value_goes_to_cursor[where h = "set_val (snd (key_node seeded_foo 0 (c_str ''bar''))) 2 (c_str ''one'')"
      and parent = 0 and k = "''foo''" and ?n0.0 = 1 and v = "''replacement''"
      and parser = "[Parsed YAML_MAPPING_END_EVENT]" and node = 0 and seq_idx = 0
      and ?h0.0 = seeded_foo and ?k0.0 = "''bar''" and ?v0.0 = "''one''" and ?node0.0 = 0]
  by (simp add: eval_defs seeded_foo_def foo_replacement_events_def)

text \<open>
  Claim C9 as stated fails for a value with a NUL byte: loading \<^verbatim>\<open>foo: "r\0z"\<close> on the
  tree with the locked child \<open>foo\<close> leaves \<open>r\<close> as the value of the root, not the scalar
  of the event.
\<close>

theorem locked_key_value_nul:
  "ConfNodeLookupChild seeded_foo 0 ''foo'' = Some 1 \<and> \<not> allow_override (seeded_foo ! 1) \<and>
   fst (ConfYamlLoadString seeded_foo 0 foo_nul_value_events) = Returned 0 \<and>
   val (snd (ConfYamlLoadString seeded_foo 0 foo_nul_value_events) ! 0) = Some ''r'' \<and>
   val (snd (ConfYamlLoadString seeded_foo 0 foo_nul_value_events) ! 0)
     \<noteq> Some [CHR ''r'', CHR 0x00, CHR ''z'']"
  by (simp add: eval_defs seeded_foo_def foo_nul_value_events_def)

section \<open>Sequences inside sequences\<close>

text \<open>
  Claim C10. In sequence mode on \<open>parent\<close>, with the cursor at \<open>parent\<close>: a
  \<^verbatim>\<open>SEQUENCE_START\<close> makes the builder call itself on the same parent in sequence mode
  (counter 0) and go on with its own counter; reading an element of any kind leaves
  the cursor where it was; and for elements \<open>xs\<close> followed by a nested sequence of elements
  \<open>ys\<close> (scalars or mappings), the children of the elements of \<open>ys\<close> are put in the queue
  of \<open>parent\<close> right after those of \<open>xs\<close>, with names that start at \<open>0\<close> again, while the
  outer counter stays at the number of \<open>xs\<close>.
\<close>

theorem nested_sequence_on_same_parent:
  assumes xs: "\<forall>x\<in>set xs. not_seq x" and ys: "\<forall>y\<in>set ys. not_seq y" and p: "parent < length h"
  shows "ConfYamlParse_loop (Parsed YAML_SEQUENCE_START_EVENT # parser) h parent True parent state idx =
           (case ConfYamlParse parser h parent True of
              (OutOfEvents, parser', h') \<Rightarrow> (OutOfEvents, parser', h')
            | (Returned r, parser', h') \<Rightarrow>
                if r \<noteq> 0 then (Returned (- 1), parser', h')
                else ConfYamlParse_loop parser' h' parent True parent CONF_KEY idx) \<and>
         (\<exists>h' state' idx'.
            ConfYamlParse_loop (events_of z @ rest) h parent True node state idx =
            ConfYamlParse_loop rest h' parent True node state' idx') \<and>
         (\<exists>h' cs1 cs2.
            ConfYamlParse
              (concat (map events_of xs) @ Parsed YAML_SEQUENCE_START_EVENT
                 # concat (map events_of ys) @ Parsed YAML_SEQUENCE_END_EVENT # rest)
              h parent True
            = ConfYamlParse_loop rest h' parent True parent CONF_KEY (length xs) \<and>
            head (h' ! parent) = head (h ! parent) @ cs1 @ cs2 \<and>
            child_names h' cs1 = map (\<lambda>i. Some (decimal i)) [0..<length xs] \<and>
            child_names h' cs2 = map (\<lambda>i. Some (decimal i)) [0..<length ys])"
proof (intro conjI)
  show "ConfYamlParse_loop (Parsed YAML_SEQUENCE_START_EVENT # parser) h parent True parent state idx =
           (case ConfYamlParse parser h parent True of
              (OutOfEvents, parser', h') \<Rightarrow> (OutOfEvents, parser', h')
            | (Returned r, parser', h') \<Rightarrow>
                if r \<noteq> 0 then (Returned (- 1), parser', h')
                else ConfYamlParse_loop parser' h' parent True parent CONF_KEY idx)"
    by (simp add: ConfYamlParse_def)
next
  from passes_throughD[OF passes_through_events_of, of z rest h parent True node state idx]
  show "\<exists>h' state' idx'.
          ConfYamlParse_loop (events_of z @ rest) h parent True node state idx =
          ConfYamlParse_loop rest h' parent True node state' idx'"
    by auto
next
  let ?inner = "concat (map events_of ys) @ Parsed YAML_SEQUENCE_END_EVENT # rest"
  from sequence_elements[OF xs p, of "Parsed YAML_SEQUENCE_START_EVENT # ?inner" CONF_KEY 0]
  obtain h1 s1 cs1 where
    E1: "ConfYamlParse_loop (concat (map events_of xs) @ Parsed YAML_SEQUENCE_START_EVENT # ?inner)
           h parent True parent CONF_KEY 0 =
         ConfYamlParse_loop (Parsed YAML_SEQUENCE_START_EVENT # ?inner) h1 parent True parent s1 (0 + length xs)"
    and T1: "touched {parent} h h1"
    and H1: "head (h1 ! parent) = head (h ! parent) @ cs1"
    and N1: "child_names h1 cs1 = map (\<lambda>i. Some (decimal i)) [0..<0 + length xs]"
    and B1: "\<forall>c\<in>set cs1. c < length h1"
    by blast
  have p1: "parent < length h1" using touched_length[OF T1] p by simp
  from sequence_elements[OF ys p1, of "Parsed YAML_SEQUENCE_END_EVENT # rest" CONF_KEY 0]
  obtain h2 s2 cs2 where
    E2: "ConfYamlParse_loop ?inner h1 parent True parent CONF_KEY 0 =
         ConfYamlParse_loop (Parsed YAML_SEQUENCE_END_EVENT # rest) h2 parent True parent s2 (0 + length ys)"
    and T2: "touched {parent} h1 h2"
    and H2: "head (h2 ! parent) = head (h1 ! parent) @ cs2"
    and N2: "child_names h2 cs2 = map (\<lambda>i. Some (decimal i)) [0..<0 + length ys]"
    by blast
  have "child_names h2 cs1 = child_names h1 cs1"
    using B1 touched_name[OF T2] by (simp add: child_names_def)
  with N1 have N1': "child_names h2 cs1 = map (\<lambda>i. Some (decimal i)) [0..<length xs]" by simp
  have "ConfYamlParse
          (concat (map events_of xs) @ Parsed YAML_SEQUENCE_START_EVENT
             # concat (map events_of ys) @ Parsed YAML_SEQUENCE_END_EVENT # rest)
          h parent True
        = ConfYamlParse_loop rest h2 parent True parent CONF_KEY (length xs)"
    using E1 E2 by (simp add: ConfYamlParse_def)
  moreover have "head (h2 ! parent) = head (h ! parent) @ cs1 @ cs2" using H1 H2 by simp
  ultimately show "\<exists>h' cs1 cs2.
            ConfYamlParse
              (concat (map events_of xs) @ Parsed YAML_SEQUENCE_START_EVENT
                 # concat (map events_of ys) @ Parsed YAML_SEQUENCE_END_EVENT # rest)
              h parent True
            = ConfYamlParse_loop rest h' parent True parent CONF_KEY (length xs) \<and>
            head (h' ! parent) = head (h ! parent) @ cs1 @ cs2 \<and>
            child_names h' cs1 = map (\<lambda>i. Some (decimal i)) [0..<length xs] \<and>
            child_names h' cs2 = map (\<lambda>i. Some (decimal i)) [0..<length ys]"
    using N1' N2 by auto
qed

theorem nested_sequence_on_same_parent_witness:
  "not_seq (YScalar ''a'') \<and> not_seq (YScalar ''b'') \<and> not_seq (YScalar ''c'') \<and>
   (1::nat) < length output_key_tree \<and>
   ConfYamlParse flat_then_nested_events output_key_tree 1 True =
     (Returned 0, [],
      [\<lparr>name = None, val = None, is_seq = False, allow_override = False, head = [1]\<rparr>,
       \<lparr>name = Some ''output'', val = None, is_seq = False, allow_override = False, head = [2, 3, 4]\<rparr>,
       \<lparr>name = Some ''0'', val = Some ''a'', is_seq = False, allow_override = False, head = []\<rparr>,
       \<lparr>name = Some ''0'', val = Some ''b'', is_seq = False, allow_override = False, head = []\<rparr>,
       \<lparr>name = Some ''1'', val = Some ''c'', is_seq = False, allow_override = False, head = []\<rparr>])"
  using nested_sequence_on_same_parent[of "[YScalar ''a'']" "[YScalar ''b'', YScalar ''c'']" 1
      output_key_tree "[]" CONF_KEY 0 "YScalar ''a''" "[Parsed YAML_SEQUENCE_END_EVENT]" 1]
  by (simp add: eval_defs flat_then_nested_events_def output_key_tree_def)

end
